theory Spec2Isabelle
  imports Main "HOL-Library.Char_ord" "HOL-Library.List_Lexorder" "HOL-Library.Multiset"
begin

section \<open>Python strings and the builtins the program calls\<close>

text \<open>
  A Python \<open>str\<close> is modelled as a \<open>string\<close>, read as a list of code points below 256
  (Latin-1). All builtins below are given for that range.

  \<open>str.strip()\<close> removes leading and trailing whitespace. Below 256 the characters
  with \<open>str.isspace()\<close> are 0x09..0x0D, 0x1C..0x1F, 0x20, 0x85 and 0xA0.
\<close>

definition py_isspace :: "char \<Rightarrow> bool" where
  "py_isspace c = (of_char c \<in> set [9, 10, 11, 12, 13, 28, 29, 30, 31, 32, 133, 160 :: nat])"

definition py_strip :: "string \<Rightarrow> string" where
  "py_strip s = rev (dropWhile py_isspace (rev (dropWhile py_isspace s)))"

text \<open>\<open>s.startswith(p)\<close>.\<close>

fun startswith :: "string \<Rightarrow> string \<Rightarrow> bool" where
  "startswith s [] = True"
| "startswith [] (p # ps) = False"
| "startswith (c # cs) (p # ps) = (c = p \<and> startswith cs ps)"

text \<open>
  \<open>s.split(sep)\<close> for a one-character separator: the fields between the separators,
  always at least one field (\<open>''.split(':') == ['']\<close>).
\<close>

fun py_split :: "char \<Rightarrow> string \<Rightarrow> string list" where
  "py_split sep [] = [[]]"
| "py_split sep (c # cs) =
     (if c = sep then [] # py_split sep cs
      else (c # hd (py_split sep cs)) # tl (py_split sep cs))"

text \<open>
  \<open>s.split(sep, 1)\<close> on a string that contains \<open>sep\<close>: the part before the first
  separator and the part after it. (The program calls it only after checking
  \<open>sep in s\<close>.)
\<close>

definition py_split1 :: "char \<Rightarrow> string \<Rightarrow> string \<times> string" where
  "py_split1 sep s = (takeWhile (\<lambda>c. c \<noteq> sep) s, tl (dropWhile (\<lambda>c. c \<noteq> sep) s))"

text \<open>
  \<open>int(s)\<close> for a \<open>str\<close> argument (base 10). CPython maps the non-ASCII spaces
  (below 256: 0x85, 0xA0) to a blank, skips the C whitespace 0x09..0x0D and 0x20 on both
  sides, reads an optional sign and then decimal digits, where single underscores may
  stand between digits. Anything else raises \<open>ValueError\<close>, modelled as \<open>None\<close>. A
  literal of more than 4300 digits (the interpreter's default
  \<open>sys.int_info.default_max_str_digits\<close>) raises \<open>ValueError\<close> as well.
\<close>

definition int_space :: "char \<Rightarrow> bool" where
  "int_space c = (of_char c \<in> set [9, 10, 11, 12, 13, 32, 133, 160 :: nat])"

definition digit_value :: "char \<Rightarrow> nat option" where
  "digit_value c = (if c \<in> set ''0123456789'' then Some (of_char c - 48) else None)"

text \<open>
  The digit scan: \<open>prev_us\<close> says that the previous character was an underscore,
  \<open>n\<close> counts the digits read and \<open>acc\<close> is their value. The caller rejects a
  leading underscore and an empty literal.
\<close>

fun scan_digits :: "bool \<Rightarrow> nat \<Rightarrow> nat \<Rightarrow> string \<Rightarrow> (nat \<times> nat) option" where
  "scan_digits prev_us n acc [] = (if prev_us then None else Some (n, acc))"
| "scan_digits prev_us n acc (c # cs) =
     (if c = CHR ''_'' then (if prev_us then None else scan_digits True n acc cs)
      else (case digit_value c of
              None \<Rightarrow> None
            | Some d \<Rightarrow> scan_digits False (Suc n) (10 * acc + d) cs))"

definition max_str_digits :: nat where
  "max_str_digits = 4300"

definition py_int_unsigned :: "string \<Rightarrow> nat option" where
  "py_int_unsigned s =
     (case s of
        [] \<Rightarrow> None
      | c # cs \<Rightarrow>
          if c = CHR ''_'' then None
          else (case scan_digits False 0 0 s of
                  None \<Rightarrow> None
                | Some (n, v) \<Rightarrow> if n > max_str_digits then None else Some v))"

definition py_int :: "string \<Rightarrow> int option" where
  "py_int s =
     (let t = rev (dropWhile int_space (rev (dropWhile int_space s)))
      in case t of
           [] \<Rightarrow> None
         | c # cs \<Rightarrow>
             if c = CHR ''+'' then map_option int (py_int_unsigned cs)
             else if c = CHR ''-'' then map_option (\<lambda>v. - int v) (py_int_unsigned cs)
             else map_option int (py_int_unsigned t))"

text \<open>
  The format spec \<open>{n:02d}\<close> for a non-negative \<open>n\<close>: decimal digits, padded with
  zeros on the left to at least two characters.
\<close>

definition digit_char :: "nat \<Rightarrow> char" where
  "digit_char d = ''0123456789'' ! d"

function str_nat :: "nat \<Rightarrow> string" where
  "str_nat n = (if n < 10 then [digit_char n] else str_nat (n div 10) @ [digit_char (n mod 10)])"
  by pat_completeness auto
termination
  by (relation "measure id") auto

declare str_nat.simps [simp del]

definition format_02d :: "nat \<Rightarrow> string" where
  "format_02d n = (let s = str_nat n in replicate (2 - length s) CHR ''0'' @ s)"

section \<open>Data model\<close>

text \<open>
  Values parsed from JSON or YAML and the dictionaries the program builds. A \<open>dict\<close>
  is an association list in insertion order (Python dictionaries keep it, and the YAML
  writer is called with \<open>sort_keys=False\<close>). Floating point numbers are left out.
\<close>

datatype pyval =
    PNone
  | PBool bool
  | PInt int
  | PStr string
  | PList "pyval list"
  | PDict "(string \<times> pyval) list"

text \<open>One entry of the list \<open>read_proxy_file\<close> returns (a dict with these five keys).\<close>

record proxy_info =
  ip :: string
  port :: string
  user :: string
  pass :: string
  line_num :: nat

text \<open>
  What \<open>process_data\<close> hands back. It returns \<open>(final_config, None)\<close> (\<open>Return\<close>),
  or \<open>(None, msg)\<close> with one of its messages (\<open>Abort\<close>), or an exception leaves it
  uncaught (\<open>Raise\<close>). The messages are Chinese text with the offending data
  interpolated; an \<open>error\<close> keeps the kind of message and the interpolated data:
  \<^item> \<open>PortFormatError line_num port\<close>: line 112, the port of a proxy line is no number;
  \<^item> \<open>MappingFormatError key (LocalInvalid socks_local)\<close>: line 162;
  \<^item> \<open>MappingFormatError key (LocalPortInvalid local_port_str)\<close>: line 169;
  \<^item> \<open>MappingFormatError key RemoteMissing\<close>: line 185;
  \<^item> \<open>UnresolvedRemoteError key socks_remote_ip\<close>: line 198.
\<close>

datatype mapping_detail = LocalInvalid pyval | LocalPortInvalid string | RemoteMissing

datatype error =
    PortFormatError nat string
  | MappingFormatError string mapping_detail
  | UnresolvedRemoteError string pyval

datatype exn = TypeError | AttributeError | KeyError

datatype 'a result = Return 'a | Abort error | Raise exn

section \<open>The proxy list parser, \<open>read_proxy_file\<close> (lines 44-72)\<close>

text \<open>
  The file as the parser meets it: the path does not exist (\<open>NotFound\<close>); opening or
  reading it fails (permissions, decoding) after it has yielded some of its physical
  lines, none if it cannot be opened (\<open>Unreadable\<close> with these lines); or it yields
  all its physical lines (\<open>Lines\<close>). Console output is modelled only for the message
  about an invalid line (line 67), which carries the line number and the stripped line;
  \<open>print\<close> is taken to succeed. A read that fails has printed the messages for the
  lines it had got before, and returns the error.
\<close>

datatype file_state = NotFound | Unreadable "string list" | Lines "string list"

datatype read_error = FileNotFound | ReadFailed

datatype log_line = InvalidLine nat string

text \<open>
  The loop \<open>for i, line in enumerate(f)\<close>: \<open>i\<close> is the 0-based index of the line,
  \<open>proxies\<close> the list built so far, \<open>out\<close> the messages printed so far.
\<close>

fun read_lines ::
  "nat \<Rightarrow> string list \<Rightarrow> proxy_info list \<Rightarrow> log_line list \<Rightarrow> proxy_info list \<times> log_line list"
where
  "read_lines i [] proxies out = (proxies, out)"
| "read_lines i (raw # rest) proxies out =
     (let line = py_strip raw in
      if line = [] \<or> startswith line ''#'' then read_lines (i + 1) rest proxies out
      else
        let parts = py_split CHR '':'' line in
        if length parts = 4 then
          read_lines (i + 1) rest
            (proxies @ [\<lparr>ip = parts ! 0, port = parts ! 1, user = parts ! 2, pass = parts ! 3,
                         line_num = i + 1\<rparr>]) out
        else read_lines (i + 1) rest proxies (out @ [InvalidLine (i + 1) line]))"

definition read_proxy_file :: "file_state \<Rightarrow> (read_error + proxy_info list) \<times> log_line list" where
  "read_proxy_file f =
     (case f of
        NotFound \<Rightarrow> (Inl FileNotFound, [])
      | Unreadable ls \<Rightarrow> (Inl ReadFailed, snd (read_lines 0 ls [] []))
      | Lines ls \<Rightarrow> (let (proxies, out) = read_lines 0 ls [] [] in (Inr proxies, out)))"

section \<open>The merge, \<open>process_data\<close> (lines 98-226)\<close>

subsection \<open>Step 1: the generated proxies (lines 107-131)\<close>

definition new_proxy :: "string \<Rightarrow> proxy_info \<Rightarrow> int \<Rightarrow> pyval" where
  "new_proxy proxy_name proxy_info port_int =
     PDict [(''name'', PStr proxy_name),
            (''type'', PStr ''socks5''),
            (''server'', PStr (ip proxy_info)),
            (''port'', PInt port_int),
            (''username'', PStr (user proxy_info)),
            (''password'', PStr (pass proxy_info)),
            (''tls'', PBool False),
            (''skip-cert-verify'', PBool True),
            (''udp'', PBool True)]"

text \<open>
  The loop \<open>for i, proxy_info in enumerate(proxy_list)\<close>, with the two accumulators
  \<open>generated_proxies\<close> and \<open>remote_ip_to_proxy_name\<close> (a dict from \<open>str\<close> to \<open>str\<close>).
\<close>

fun generate_proxies ::
  "nat \<Rightarrow> proxy_info list \<Rightarrow> pyval list \<Rightarrow> (string \<rightharpoonup> string)
     \<Rightarrow> (pyval list \<times> (string \<rightharpoonup> string)) result"
where
  "generate_proxies i [] generated_proxies remote_ip_to_proxy_name =
     Return (generated_proxies, remote_ip_to_proxy_name)"
| "generate_proxies i (proxy_info # rest) generated_proxies remote_ip_to_proxy_name =
     (let proxy_name = ''socks_out_'' @ format_02d (i + 1) in
      case py_int (port proxy_info) of
        None \<Rightarrow> Abort (PortFormatError (line_num proxy_info) (port proxy_info))
      | Some port_int \<Rightarrow>
          generate_proxies (i + 1) rest
            (generated_proxies @ [new_proxy proxy_name proxy_info port_int])
            (remote_ip_to_proxy_name(ip proxy_info \<mapsto> proxy_name)))"

subsection \<open>The base configuration and the lists it shares (lines 101, 133-138, 214-222)\<close>

text \<open>
  \<open>base_clash_config.copy()\<close> is a shallow copy: a new dictionary whose values are the
  same objects. The program then mutates list objects in place (\<open>extend\<close>), so lists that
  are values of the configuration live in a store: a \<open>heap\<close> holds the items of every
  list object, an address is an index into it, and a configuration binds a key either
  to a list object (\<open>CList a\<close>) or to a value that is not a list (\<open>COther v\<close>). The
  items of a list and the values below the top level are kept inline: the program mutates
  no object below the top level. The store therefore stands for base configurations in
  which the list objects bound at the top level are not also held inside another value
  (a YAML alias below the top level that points at such a list is not represented), and
  every statement below is about the lists bound at the top level.
\<close>

type_synonym addr = nat

type_synonym heap = "pyval list list"

datatype cval = CList addr | COther pyval

type_synonym config = "(string \<times> cval) list"

text \<open>\<open>d[k] = v\<close>: an existing key keeps its place, a new key goes last.\<close>

fun dict_set :: "config \<Rightarrow> string \<Rightarrow> cval \<Rightarrow> config" where
  "dict_set [] k v = [(k, v)]"
| "dict_set ((k', v') # d) k v = (if k' = k then (k, v) # d else (k', v') # dict_set d k v)"

text \<open>\<open>isinstance(final_config.get(k), list)\<close>.\<close>

definition is_list_field :: "config \<Rightarrow> string \<Rightarrow> bool" where
  "is_list_field final_config k =
     (case map_of final_config k of Some (CList a) \<Rightarrow> True | _ \<Rightarrow> False)"

text \<open>
  Lines 135-137 and 219-221: \<open>if not isinstance(...): final_config[k] = []\<close>. The new
  list object takes the next free address.
\<close>

definition ensure_list :: "string \<Rightarrow> config \<times> heap \<Rightarrow> config \<times> heap" where
  "ensure_list k s =
     (case s of (final_config, h) \<Rightarrow>
        if is_list_field final_config k then (final_config, h)
        else (dict_set final_config k (CList (length h)), h @ [[]]))"

text \<open>Lines 138 and 222: \<open>final_config[k].extend(items)\<close>, in place.\<close>

definition extend_field :: "string \<Rightarrow> pyval list \<Rightarrow> config \<times> heap \<Rightarrow> config \<times> heap" where
  "extend_field k items s =
     (case s of (final_config, h) \<Rightarrow>
        (case map_of final_config k of
           Some (CList a) \<Rightarrow> (final_config, h[a := h ! a @ items])
         | _ \<Rightarrow> (final_config, h)))"

text \<open>
  Line 215: \<open>final_config[k] = items\<close> for a list the function built itself; the list
  becomes an object of the store at the next free address.
\<close>

definition bind_new_list :: "string \<Rightarrow> pyval list \<Rightarrow> config \<times> heap \<Rightarrow> config \<times> heap" where
  "bind_new_list k items s =
     (case s of (final_config, h) \<Rightarrow> (dict_set final_config k (CList (length h)), h @ [items]))"

subsection \<open>Step 3: the order of the mapping keys (lines 147-152)\<close>

text \<open>
  \<open>sorted(keys, key=lambda k: int(k))\<close> computes \<open>int(k)\<close> for every key first (any
  \<open>ValueError\<close> sends the program to \<open>sorted(keys)\<close>) and then sorts stably by that
  number. \<open>sorted(keys)\<close> orders strings by code point, a proper prefix first.
\<close>

definition sorted_mapping_keys :: "(string \<times> pyval) list \<Rightarrow> string list" where
  "sorted_mapping_keys mapping_data =
     (let keys = map fst mapping_data in
      case those (map py_int keys) of
        Some ns \<Rightarrow> map snd (sort_key fst (zip ns keys))
      | None \<Rightarrow> sort keys)"

subsection \<open>Steps 4-6: one listener and one relay group per key (lines 154-212)\<close>

text \<open>Truth value of an object (\<open>not x\<close> is its negation).\<close>

fun truthy :: "pyval \<Rightarrow> bool" where
  "truthy PNone = False"
| "truthy (PBool b) = b"
| "truthy (PInt n) = (n \<noteq> 0)"
| "truthy (PStr s) = (s \<noteq> [])"
| "truthy (PList xs) = (xs \<noteq> [])"
| "truthy (PDict d) = (d \<noteq> [])"

text \<open>\<open>map_entry.get(k)\<close>: only a dict has \<open>get\<close>; a missing key gives \<open>None\<close>.\<close>

fun entry_get :: "pyval \<Rightarrow> string \<Rightarrow> exn + pyval" where
  "entry_get (PDict d) k = Inr (case map_of d k of None \<Rightarrow> PNone | Some v \<Rightarrow> v)"
| "entry_get v k = Inl AttributeError"

text \<open>
  \<open>':' in x\<close>: a substring test on a \<open>str\<close>, membership in a list, a key test on a
  dict, and a \<open>TypeError\<close> on anything that is not iterable.
\<close>

fun contains_colon :: "pyval \<Rightarrow> exn + bool" where
  "contains_colon (PStr s) = Inr (CHR '':'' \<in> set s)"
| "contains_colon (PList xs) = Inr (PStr '':'' \<in> set xs)"
| "contains_colon (PDict d) = Inr ('':'' \<in> fst ` set d)"
| "contains_colon v = Inl TypeError"

text \<open>\<open>x.split(':', 1)\<close>: only a \<open>str\<close> has \<open>split\<close>.\<close>

fun split_colon :: "pyval \<Rightarrow> exn + string \<times> string" where
  "split_colon (PStr s) = Inr (py_split1 CHR '':'' s)"
| "split_colon v = Inl AttributeError"

definition new_listener :: "string \<Rightarrow> int \<Rightarrow> string \<Rightarrow> pyval" where
  "new_listener listener_name local_port relay_group_name =
     PDict [(''name'', PStr listener_name),
            (''type'', PStr ''mixed''),
            (''port'', PInt local_port),
            (''proxy'', PStr relay_group_name)]"

text \<open>Lines 159-179, for one key.\<close>

definition generate_listener :: "string \<Rightarrow> pyval \<Rightarrow> pyval result" where
  "generate_listener key map_entry =
     (let listener_name = ''socks_'' @ key; relay_group_name = ''socks_relay_'' @ key in
      case entry_get map_entry ''socks_local'' of
        Inl x \<Rightarrow> Raise x
      | Inr socks_local \<Rightarrow>
          if \<not> truthy socks_local then Abort (MappingFormatError key (LocalInvalid socks_local))
          else (case contains_colon socks_local of
                  Inl x \<Rightarrow> Raise x
                | Inr False \<Rightarrow> Abort (MappingFormatError key (LocalInvalid socks_local))
                | Inr True \<Rightarrow>
                    (case split_colon socks_local of
                       Inl x \<Rightarrow> Raise x
                     | Inr (local_ip, local_port_str) \<Rightarrow>
                         (case py_int local_port_str of
                            None \<Rightarrow> Abort (MappingFormatError key (LocalPortInvalid local_port_str))
                          | Some local_port \<Rightarrow>
                              Return (new_listener listener_name local_port relay_group_name)))))"

text \<open>
  \<open>remote_ip_to_proxy_name.get(x)\<close>: the keys of the dict are strings, so any other
  hashable object is not found; a list or a dict is unhashable.
\<close>

fun name_get :: "(string \<rightharpoonup> string) \<Rightarrow> pyval \<Rightarrow> exn + string option" where
  "name_get m (PStr s) = Inr (m s)"
| "name_get m (PList xs) = Inl TypeError"
| "name_get m (PDict d) = Inl TypeError"
| "name_get m v = Inr None"

text \<open>\<open>not target_proxy_name\<close>: the name is \<open>None\<close> or the empty string.\<close>

definition no_name :: "string option \<Rightarrow> bool" where
  "no_name target_proxy_name = (target_proxy_name = None \<or> target_proxy_name = Some [])"

text \<open>Lines 190-195: the name under the full value, else under the part before the colon.\<close>

definition resolve_target :: "(string \<rightharpoonup> string) \<Rightarrow> pyval \<Rightarrow> exn + string option" where
  "resolve_target remote_ip_to_proxy_name socks_remote_ip =
     (case name_get remote_ip_to_proxy_name socks_remote_ip of
        Inl x \<Rightarrow> Inl x
      | Inr target_proxy_name \<Rightarrow>
          if \<not> no_name target_proxy_name then Inr target_proxy_name
          else (case contains_colon socks_remote_ip of
                  Inl x \<Rightarrow> Inl x
                | Inr False \<Rightarrow> Inr target_proxy_name
                | Inr True \<Rightarrow>
                    (case split_colon socks_remote_ip of
                       Inl x \<Rightarrow> Inl x
                     | Inr (socks_remote_ip_only, u) \<Rightarrow>
                         Inr (remote_ip_to_proxy_name socks_remote_ip_only))))"

definition new_group :: "string \<Rightarrow> string \<Rightarrow> pyval" where
  "new_group relay_group_name target_proxy_name =
     PDict [(''name'', PStr relay_group_name),
            (''type'', PStr ''relay''),
            (''proxies'', PList [PStr ''Switch-Proxy'', PStr target_proxy_name])]"

text \<open>Lines 182-211, for one key.\<close>

definition generate_group :: "(string \<rightharpoonup> string) \<Rightarrow> string \<Rightarrow> pyval \<Rightarrow> pyval result" where
  "generate_group remote_ip_to_proxy_name key map_entry =
     (let relay_group_name = ''socks_relay_'' @ key in
      case entry_get map_entry ''socks_remote'' of
        Inl x \<Rightarrow> Raise x
      | Inr socks_remote_ip \<Rightarrow>
          if \<not> truthy socks_remote_ip then Abort (MappingFormatError key RemoteMissing)
          else (case resolve_target remote_ip_to_proxy_name socks_remote_ip of
                  Inl x \<Rightarrow> Raise x
                | Inr target_proxy_name \<Rightarrow>
                    if no_name target_proxy_name
                    then Abort (UnresolvedRemoteError key socks_remote_ip)
                    else Return (new_group relay_group_name (the target_proxy_name))))"

text \<open>
  The body of the loop \<open>for key in sorted_mapping_keys\<close> (lines 155-211):
  \<open>mapping_data[key]\<close> raises \<open>KeyError\<close> for a key the dict does not have; the
  listener is built before \<open>socks_remote\<close> is looked at.
\<close>

definition generate_entry ::
  "(string \<times> pyval) list \<Rightarrow> (string \<rightharpoonup> string) \<Rightarrow> string \<Rightarrow> (pyval \<times> pyval) result"
where
  "generate_entry mapping_data remote_ip_to_proxy_name key =
     (case map_of mapping_data key of
        None \<Rightarrow> Raise KeyError
      | Some map_entry \<Rightarrow>
          (case generate_listener key map_entry of
             Abort e \<Rightarrow> Abort e
           | Raise x \<Rightarrow> Raise x
           | Return listener \<Rightarrow>
               (case generate_group remote_ip_to_proxy_name key map_entry of
                  Abort e \<Rightarrow> Abort e
                | Raise x \<Rightarrow> Raise x
                | Return grp \<Rightarrow> Return (listener, grp))))"

text \<open>
  The loop, with the accumulators \<open>generated_listeners\<close> and
  \<open>generated_proxy_groups\<close>; a \<open>return\<close> or an exception in the body ends it.
\<close>

fun generate_entries ::
  "(string \<times> pyval) list \<Rightarrow> (string \<rightharpoonup> string) \<Rightarrow> string list \<Rightarrow> pyval list \<Rightarrow> pyval list
     \<Rightarrow> (pyval list \<times> pyval list) result"
where
  "generate_entries mapping_data remote_ip_to_proxy_name [] generated_listeners
       generated_proxy_groups =
     Return (generated_listeners, generated_proxy_groups)"
| "generate_entries mapping_data remote_ip_to_proxy_name (key # rest) generated_listeners
       generated_proxy_groups =
     (case generate_entry mapping_data remote_ip_to_proxy_name key of
        Abort e \<Rightarrow> Abort e
      | Raise x \<Rightarrow> Raise x
      | Return (listener, grp) \<Rightarrow>
          generate_entries mapping_data remote_ip_to_proxy_name rest
            (generated_listeners @ [listener]) (generated_proxy_groups @ [grp]))"

subsection \<open>The whole function\<close>

text \<open>
  \<open>process_data\<close> takes the store as it is at the call and returns the store as it
  leaves it, next to its result. \<open>final_config\<close> starts as the shallow copy of
  \<open>base_clash_config\<close>: the same bindings in a dictionary of its own, so the later
  assignments to its keys leave the bindings of \<open>base_clash_config\<close> alone. The
  keys of the configuration are strings. Console output is not modelled; \<open>print\<close> is
  taken to succeed.
\<close>

definition process_data ::
  "(string \<times> pyval) list \<Rightarrow> proxy_info list \<Rightarrow> config \<Rightarrow> heap \<Rightarrow> config result \<times> heap"
where
  "process_data mapping_data proxy_list base_clash_config h0 =
     (case generate_proxies 0 proxy_list [] Map.empty of
        Abort e \<Rightarrow> (Abort e, h0)
      | Raise x \<Rightarrow> (Raise x, h0)
      | Return (generated_proxies, remote_ip_to_proxy_name) \<Rightarrow>
          (let s1 = extend_field ''proxies'' generated_proxies
                      (ensure_list ''proxies'' (base_clash_config, h0))
           in (case generate_entries mapping_data remote_ip_to_proxy_name
                       (sorted_mapping_keys mapping_data) [] [] of
                 Abort e \<Rightarrow> (Abort e, snd s1)
               | Raise x \<Rightarrow> (Raise x, snd s1)
               | Return (generated_listeners, generated_proxy_groups) \<Rightarrow>
                   (let s2 = extend_field ''proxy-groups'' generated_proxy_groups
                               (ensure_list ''proxy-groups''
                                  (bind_new_list ''listeners'' generated_listeners s1))
                    in (Return (fst s2), snd s2)))))"

text \<open>
  Reading a configuration through a store: the items of the list bound to a key
  (\<open>[]\<close> when the key is missing or bound to something else), and the whole
  configuration as a value.
\<close>

definition field_items :: "heap \<Rightarrow> config \<Rightarrow> string \<Rightarrow> pyval list" where
  "field_items h cfg k = (case map_of cfg k of Some (CList a) \<Rightarrow> h ! a | _ \<Rightarrow> [])"

fun cval_view :: "heap \<Rightarrow> cval \<Rightarrow> pyval" where
  "cval_view h (CList a) = PList (h ! a)"
| "cval_view h (COther v) = v"

definition config_view :: "heap \<Rightarrow> config \<Rightarrow> (string \<times> pyval) list" where
  "config_view h cfg = map (\<lambda>(k, v). (k, cval_view h v)) cfg"

section \<open>Notions used in the statements\<close>

text \<open>
  The proxy list parser in the words of the specification: a line is skipped when it
  is blank or starts with \<open>#\<close> (after stripping), it is valid when its colon-separated
  fields are exactly four, and a valid line gives the record of its four fields and its
  1-based line number.
\<close>

definition spec_skipped :: "string \<Rightarrow> bool" where
  "spec_skipped raw = (py_strip raw = [] \<or> startswith (py_strip raw) ''#'')"

definition spec_fields :: "string \<Rightarrow> string list" where
  "spec_fields raw = py_split CHR '':'' (py_strip raw)"

definition spec_valid :: "string \<Rightarrow> bool" where
  "spec_valid raw = (\<not> spec_skipped raw \<and> length (spec_fields raw) = 4)"

definition spec_invalid :: "string \<Rightarrow> bool" where
  "spec_invalid raw = (\<not> spec_skipped raw \<and> length (spec_fields raw) \<noteq> 4)"

definition spec_record :: "nat \<Rightarrow> string \<Rightarrow> proxy_info" where
  "spec_record n raw =
     \<lparr>ip = spec_fields raw ! 0, port = spec_fields raw ! 1, user = spec_fields raw ! 2,
      pass = spec_fields raw ! 3, line_num = n\<rparr>"

text \<open>
  The generated proxy in the words of the specification: the name of the proxy made
  from the record at 0-based index \<open>i\<close>, the proxy itself, and the reverse lookup from
  IP to name after the records from index \<open>i\<close> on have been entered in list order.
\<close>

definition spec_proxy_name :: "nat \<Rightarrow> string" where
  "spec_proxy_name i = ''socks_out_'' @ format_02d (i + 1)"

definition spec_proxy :: "nat \<Rightarrow> proxy_info \<Rightarrow> pyval" where
  "spec_proxy i r =
     PDict [(''name'', PStr (spec_proxy_name i)),
            (''type'', PStr ''socks5''),
            (''server'', PStr (ip r)),
            (''port'', PInt (the (py_int (port r)))),
            (''username'', PStr (user r)),
            (''password'', PStr (pass r)),
            (''tls'', PBool False),
            (''skip-cert-verify'', PBool True),
            (''udp'', PBool True)]"

fun spec_lookup :: "nat \<Rightarrow> proxy_info list \<Rightarrow> (string \<rightharpoonup> string) \<Rightarrow> (string \<rightharpoonup> string)" where
  "spec_lookup i [] m = m"
| "spec_lookup i (r # rs) m = spec_lookup (i + 1) rs (m(ip r \<mapsto> spec_proxy_name i))"

text \<open>
  A configuration fits a store when every list it binds is an object of the store and
  the values it keeps inline are not lists (a list is always bound as \<open>CList\<close>).
  Two keys share a list when they are bound to the same list object.
\<close>

fun non_list :: "pyval \<Rightarrow> bool" where
  "non_list (PList xs) = False"
| "non_list v = True"

definition wf_config :: "heap \<Rightarrow> config \<Rightarrow> bool" where
  "wf_config h c =
     list_all (\<lambda>(k, v). case v of CList a \<Rightarrow> a < length h | COther x \<Rightarrow> non_list x) c"

definition shares :: "config \<Rightarrow> string \<Rightarrow> string \<Rightarrow> bool" where
  "shares c k k' =
     (case map_of c k of Some (CList a) \<Rightarrow> map_of c k' = Some (CList a) | _ \<Rightarrow> False)"

section \<open>The proxy list parser\<close>

lemma read_lines_eq:
  "read_lines i ls proxies out =
     (proxies @ map (\<lambda>(j, l). spec_record (j + 1) l) (filter (\<lambda>(j, l). spec_valid l) (enumerate i ls)),
      out @ map (\<lambda>(j, l). InvalidLine (j + 1) (py_strip l))
              (filter (\<lambda>(j, l). spec_invalid l) (enumerate i ls)))"
proof (induction ls arbitrary: i proxies out)
  case Nil
  show ?case by simp
next
  case (Cons raw rest)
  show ?case
    by (simp add: Cons.IH Let_def spec_valid_def spec_invalid_def spec_skipped_def
        spec_fields_def spec_record_def)
qed

lemma sorted_line_nums:
  "sorted_wrt (<) (map (\<lambda>(j, l). Suc j) (filter P (enumerate i ls)))"
proof -
  have "sorted_wrt (<) (map fst (enumerate i ls))"
    by (simp add: map_fst_enumerate)
  then have "sorted_wrt (\<lambda>x y. fst x < fst y) (enumerate i ls)"
    by (simp only: sorted_wrt_map)
  then have "sorted_wrt (\<lambda>x y. fst x < fst y) (filter P (enumerate i ls))"
    by (rule sorted_wrt_filter)
  then show ?thesis
    by (simp add: sorted_wrt_map case_prod_unfold)
qed

section \<open>Step 1 of the merge\<close>

lemma generate_proxies_all:
  "\<forall>r \<in> set pl. py_int (port r) \<noteq> None \<Longrightarrow>
   generate_proxies i pl acc m =
     Return (acc @ map (\<lambda>(j, r). spec_proxy j r) (enumerate i pl), spec_lookup i pl m)"
proof (induction pl arbitrary: i acc m)
  case Nil
  show ?case by simp
next
  case (Cons r rs)
  from Cons.prems obtain n where n: "py_int (port r) = Some n" by auto
  from Cons.prems have rest: "\<forall>q \<in> set rs. py_int (port q) \<noteq> None" by simp
  show ?case
    by (simp add: n Cons.IH[OF rest] spec_proxy_def spec_proxy_name_def new_proxy_def Let_def fun_upd_def)
qed

lemma generate_proxies_first_bad:
  "\<forall>q \<in> set pre. py_int (port q) \<noteq> None \<Longrightarrow> py_int (port r) = None \<Longrightarrow>
   generate_proxies i (pre @ r # post) acc m = Abort (PortFormatError (line_num r) (port r))"
proof (induction pre arbitrary: i acc m)
  case Nil
  then show ?case by simp
next
  case (Cons q qs)
  from Cons.prems obtain n where n: "py_int (port q) = Some n" by auto
  from Cons.prems have "\<forall>q \<in> set qs. py_int (port q) \<noteq> None" by simp
  from Cons.IH[OF this Cons.prems(2)] show ?case
    by (simp add: n)
qed

lemma generate_proxies_Return_iff:
  "(\<exists>res. generate_proxies i pl acc m = Return res) \<longleftrightarrow> (\<forall>r \<in> set pl. py_int (port r) \<noteq> None)"
proof
  assume ok: "\<exists>res. generate_proxies i pl acc m = Return res"
  show "\<forall>r \<in> set pl. py_int (port r) \<noteq> None"
  proof (rule ccontr)
    assume "\<not> (\<forall>r \<in> set pl. py_int (port r) \<noteq> None)"
    then have "\<exists>r \<in> set pl. py_int (port r) = None" by simp
    then obtain pre r post where "pl = pre @ r # post" "py_int (port r) = None"
      "\<forall>q \<in> set pre. py_int (port q) \<noteq> None"
      by (auto dest!: split_list_first_prop)
    then have "generate_proxies i pl acc m = Abort (PortFormatError (line_num r) (port r))"
      by (simp add: generate_proxies_first_bad)
    with ok show False by simp
  qed
next
  assume "\<forall>r \<in> set pl. py_int (port r) \<noteq> None"
  then show "\<exists>res. generate_proxies i pl acc m = Return res"
    by (simp add: generate_proxies_all)
qed

lemma generate_proxies_never_raises: "generate_proxies i pl acc m \<noteq> Raise x"
  by (induction pl arbitrary: i acc m) (auto simp: Let_def split: option.splits)

lemma spec_lookup_notin:
  "a \<notin> ip ` set pl \<Longrightarrow> spec_lookup i pl m a = m a"
  by (induction pl arbitrary: i m) auto

lemma spec_lookup_last:
  "j < length pl \<Longrightarrow> ip (pl ! j) = a \<Longrightarrow> \<forall>j'. j < j' \<and> j' < length pl \<longrightarrow> ip (pl ! j') \<noteq> a \<Longrightarrow>
   spec_lookup i pl m a = Some (spec_proxy_name (i + j))"
proof (induction pl arbitrary: i j m)
  case Nil
  then show ?case by simp
next
  case (Cons r rs)
  show ?case
  proof (cases j)
    case 0
    have "a \<notin> ip ` set rs"
    proof
      assume "a \<in> ip ` set rs"
      then obtain k where "k < length rs" "ip (rs ! k) = a"
        by (auto simp: in_set_conv_nth)
      with Cons.prems(3)[rule_format, of "Suc k"] 0 show False by simp
    qed
    with Cons.prems 0 show ?thesis
      by (simp add: spec_lookup_notin)
  next
    case (Suc j0)
    have "\<forall>j'. j0 < j' \<and> j' < length rs \<longrightarrow> ip (rs ! j') \<noteq> a"
    proof (intro allI impI)
      fix j' assume "j0 < j' \<and> j' < length rs"
      with Cons.prems(3)[rule_format, of "Suc j'"] Suc show "ip (rs ! j') \<noteq> a" by simp
    qed
    then have "spec_lookup (i + 1) rs (m(ip r \<mapsto> spec_proxy_name i)) a = Some (spec_proxy_name (i + 1 + j0))"
      using Cons.prems Suc by (intro Cons.IH) auto
    then show ?thesis using Suc by simp
  qed
qed

lemma spec_lookup_in:
  "a \<in> ip ` set pl \<Longrightarrow> \<exists>j. spec_lookup i pl m a = Some (spec_proxy_name j)"
proof (induction pl arbitrary: i m)
  case Nil
  then show ?case by simp
next
  case (Cons r rs)
  show ?case
  proof (cases "a \<in> ip ` set rs")
    case True
    then show ?thesis using Cons.IH by simp
  next
    case False
    with Cons.prems have "a = ip r" by auto
    with False show ?thesis by (auto simp: spec_lookup_notin)
  qed
qed

lemma spec_proxy_name_nonempty: "spec_proxy_name j \<noteq> []"
  by (simp add: spec_proxy_name_def)

lemma no_name_spec_lookup:
  "no_name (spec_lookup i pl Map.empty a) \<longleftrightarrow> a \<notin> ip ` set pl"
proof (cases "a \<in> ip ` set pl")
  case True
  then obtain j where "spec_lookup i pl Map.empty a = Some (spec_proxy_name j)"
    using spec_lookup_in by blast
  with True show ?thesis by (simp add: no_name_def spec_proxy_name_nonempty)
next
  case False
  then show ?thesis by (simp add: no_name_def spec_lookup_notin)
qed

section \<open>The configuration and the store\<close>

lemma map_of_dict_set: "map_of (dict_set c k v) k' = (if k' = k then Some v else map_of c k')"
  by (induction c) auto

lemma wf_config_map_of: "wf_config h c \<Longrightarrow> map_of c k = Some (CList a) \<Longrightarrow> a < length h"
  by (auto simp: wf_config_def list_all_iff dest!: map_of_SomeD)

lemma wf_config_dict_set:
  "wf_config h c \<Longrightarrow> a < length h \<Longrightarrow> wf_config h (dict_set c k (CList a))"
  by (induction c) (auto simp: wf_config_def)

lemma wf_config_mono: "wf_config h c \<Longrightarrow> length h \<le> length h' \<Longrightarrow> wf_config h' c"
  by (auto simp: wf_config_def list_all_iff split: cval.splits)

lemma append_list:
  "map_of c k = Some (CList a) \<Longrightarrow>
   extend_field k xs (ensure_list k (c, h)) = (c, h[a := h ! a @ xs])"
  by (simp add: extend_field_def ensure_list_def is_list_field_def)

lemma append_fresh:
  "\<not> is_list_field c k \<Longrightarrow>
   extend_field k xs (ensure_list k (c, h)) = (dict_set c k (CList (length h)), h @ [xs])"
  by (simp add: extend_field_def ensure_list_def map_of_dict_set)

lemma is_list_field_iff: "is_list_field c k \<longleftrightarrow> (\<exists>a. map_of c k = Some (CList a))"
  by (auto simp: is_list_field_def split: option.splits cval.splits)

lemma append_items:
  assumes "wf_config h c" and "extend_field k xs (ensure_list k (c, h)) = (c', h')"
  shows "field_items h' c' k' = field_items h c k' @ (if k' = k \<or> shares c k k' then xs else [])"
proof (cases "is_list_field c k")
  case True
  then obtain a where a: "map_of c k = Some (CList a)" by (auto simp: is_list_field_iff)
  with assms have eq: "c' = c" "h' = h[a := h ! a @ xs]" by (simp_all add: append_list)
  from a assms(1) have "a < length h" by (rule wf_config_map_of[rotated])
  with a show ?thesis
    by (auto simp: eq field_items_def shares_def nth_list_update split: option.splits cval.splits)
next
  case False
  with assms have eq: "c' = dict_set c k (CList (length h))" "h' = h @ [xs]"
    by (simp_all add: append_fresh)
  from False have nosh: "\<not> shares c k k'"
    by (auto simp: shares_def is_list_field_iff split: option.splits cval.splits)
  from False have old: "field_items h c k = []"
    by (auto simp: field_items_def is_list_field_iff split: option.splits cval.splits)
  show ?thesis
  proof (cases "k' = k")
    case True
    then show ?thesis using old by (simp add: eq field_items_def map_of_dict_set)
  next
    case ne: False
    show ?thesis
      using assms(1) ne nosh
      by (auto simp: eq field_items_def map_of_dict_set nth_append
          dest: wf_config_map_of split: option.splits cval.splits)
  qed
qed

lemma append_wf:
  assumes "wf_config h c" and "extend_field k xs (ensure_list k (c, h)) = (c', h')"
  shows "wf_config h' c'"
proof (cases "is_list_field c k")
  case True
  then obtain a where a: "map_of c k = Some (CList a)" by (auto simp: is_list_field_iff)
  with assms show ?thesis by (auto simp: append_list intro: wf_config_mono)
next
  case False
  with assms have eq: "c' = dict_set c k (CList (length h))" "h' = h @ [xs]"
    by (simp_all add: append_fresh)
  from assms(1) have "wf_config (h @ [xs]) c" by (rule wf_config_mono) simp
  then show ?thesis unfolding eq by (rule wf_config_dict_set) simp
qed

lemma append_shares:
  assumes "wf_config h c" and "extend_field k xs (ensure_list k (c, h)) = (c', h')"
  shows "shares c' k1 k2 = ((k1 = k \<and> k2 = k) \<or> shares c k1 k2)"
proof (cases "is_list_field c k")
  case True
  then obtain a where a: "map_of c k = Some (CList a)" by (auto simp: is_list_field_iff)
  with assms have eq: "c' = c" by (simp_all add: append_list)
  from a show ?thesis by (auto simp: eq shares_def)
next
  case False
  with assms have eq: "c' = dict_set c k (CList (length h))"
    by (simp_all add: append_fresh)
  from False assms(1) show ?thesis
    by (auto simp: eq shares_def map_of_dict_set is_list_field_iff
        dest: wf_config_map_of split: option.splits cval.splits)
qed

lemma append_map_of:
  assumes "extend_field k xs (ensure_list k (c, h)) = (c', h')" and "k' \<noteq> k"
  shows "map_of c' k' = map_of c k'"
  using assms
  by (cases "is_list_field c k") (auto simp: append_list append_fresh is_list_field_iff map_of_dict_set)

lemma append_is_list:
  assumes "extend_field k xs (ensure_list k (c, h)) = (c', h')"
  shows "is_list_field c' k"
  using assms
  by (cases "is_list_field c k") (auto simp: append_list append_fresh is_list_field_iff map_of_dict_set)

lemma bind_items:
  assumes "wf_config h c" and "bind_new_list k xs (c, h) = (c', h')"
  shows "field_items h' c' k' = (if k' = k then xs else field_items h c k')"
  using assms
  by (auto simp: bind_new_list_def field_items_def map_of_dict_set nth_append
      dest: wf_config_map_of split: option.splits cval.splits)

lemma bind_wf:
  assumes "wf_config h c" and "bind_new_list k xs (c, h) = (c', h')"
  shows "wf_config h' c'"
proof -
  from assms(2) have eq: "c' = dict_set c k (CList (length h))" "h' = h @ [xs]"
    by (auto simp: bind_new_list_def)
  from assms(1) have "wf_config (h @ [xs]) c" by (rule wf_config_mono) simp
  then show ?thesis unfolding eq by (rule wf_config_dict_set) simp
qed

lemma bind_shares:
  assumes "wf_config h c" and "bind_new_list k xs (c, h) = (c', h')"
  shows "shares c' k1 k2 = (if k1 = k \<or> k2 = k then k1 = k2 else shares c k1 k2)"
  using assms
  by (auto simp: bind_new_list_def shares_def map_of_dict_set
      dest: wf_config_map_of split: option.splits cval.splits)

lemma bind_map_of:
  assumes "bind_new_list k xs (c, h) = (c', h')" and "k' \<noteq> k"
  shows "map_of c' k' = map_of c k'"
  using assms by (auto simp: bind_new_list_def map_of_dict_set)

lemma shares_sym: "shares c k k' = shares c k' k"
  by (auto simp: shares_def split: option.splits cval.splits)

lemma shares_list: "shares c k k' \<Longrightarrow> is_list_field c k"
  by (auto simp: shares_def is_list_field_iff split: option.splits cval.splits)

section \<open>The loop over the mapping keys and the whole function\<close>

lemma generate_entries_Return:
  "generate_entries md m keys ls0 gs0 = Return (ls, gs) \<Longrightarrow>
   \<exists>ls' gs'. ls = ls0 @ ls' \<and> gs = gs0 @ gs' \<and> length ls' = length keys \<and> length gs' = length keys
      \<and> (\<forall>i < length keys. generate_entry md m (keys ! i) = Return (ls' ! i, gs' ! i))"
proof (induction keys arbitrary: ls0 gs0)
  case Nil
  then show ?case by simp
next
  case (Cons k ks)
  from Cons.prems obtain l g where lg: "generate_entry md m k = Return (l, g)"
    and rest: "generate_entries md m ks (ls0 @ [l]) (gs0 @ [g]) = Return (ls, gs)"
    by (auto split: result.splits)
  from Cons.IH[OF rest] obtain ls' gs' where
    r: "ls = (ls0 @ [l]) @ ls'" "gs = (gs0 @ [g]) @ gs'" "length ls' = length ks" "length gs' = length ks"
      "\<forall>i < length ks. generate_entry md m (ks ! i) = Return (ls' ! i, gs' ! i)"
    by blast
  have "\<forall>i < length (k # ks). generate_entry md m ((k # ks) ! i) = Return ((l # ls') ! i, (g # gs') ! i)"
    using lg r(5) by (auto simp: nth_Cons split: nat.splits)
  with r show ?case
    by (intro exI[of _ "l # ls'"] exI[of _ "g # gs'"]) simp
qed

lemma generate_entries_all:
  "\<forall>k \<in> set keys. \<exists>lg. generate_entry md m k = Return lg \<Longrightarrow>
   \<exists>ls gs. generate_entries md m keys ls0 gs0 = Return (ls, gs)"
proof (induction keys arbitrary: ls0 gs0)
  case Nil
  then show ?case by simp
next
  case (Cons k ks)
  from Cons.prems obtain l g where lg: "generate_entry md m k = Return (l, g)" by auto
  from Cons.prems have "\<forall>k \<in> set ks. \<exists>lg. generate_entry md m k = Return lg" by simp
  from Cons.IH[OF this] show ?case by (simp add: lg)
qed

lemma generate_entries_prefix:
  "\<forall>k \<in> set pre. \<exists>lg. generate_entry md m k = Return lg \<Longrightarrow>
   \<exists>ls1 gs1. generate_entries md m (pre @ rest) ls0 gs0 = generate_entries md m rest ls1 gs1"
proof (induction pre arbitrary: ls0 gs0)
  case Nil
  show ?case by auto
next
  case (Cons k ks)
  from Cons.prems obtain l g where lg: "generate_entry md m k = Return (l, g)" by auto
  from Cons.prems have "\<forall>k \<in> set ks. \<exists>lg. generate_entry md m k = Return lg" by simp
  from Cons.IH[OF this] show ?case by (simp add: lg)
qed

lemma generate_entries_Abort:
  assumes "\<forall>k \<in> set pre. \<exists>lg. generate_entry md m k = Return lg"
    and "generate_entry md m K = Abort e"
  shows "generate_entries md m (pre @ K # post) ls0 gs0 = Abort e"
proof -
  from generate_entries_prefix[OF assms(1)] obtain ls1 gs1 where
    "generate_entries md m (pre @ K # post) ls0 gs0 = generate_entries md m (K # post) ls1 gs1"
    by blast
  with assms(2) show ?thesis by simp
qed

lemma generate_entries_Raise:
  assumes "\<forall>k \<in> set pre. \<exists>lg. generate_entry md m k = Return lg"
    and "generate_entry md m K = Raise x"
  shows "generate_entries md m (pre @ K # post) ls0 gs0 = Raise x"
proof -
  from generate_entries_prefix[OF assms(1)] obtain ls1 gs1 where
    "generate_entries md m (pre @ K # post) ls0 gs0 = generate_entries md m (K # post) ls1 gs1"
    by blast
  with assms(2) show ?thesis by simp
qed

lemma process_data_Return:
  assumes "process_data md pl base h0 = (Return cfg, h')"
  shows "\<exists>gp m ls gs.
     generate_proxies 0 pl [] Map.empty = Return (gp, m)
     \<and> generate_entries md m (sorted_mapping_keys md) [] [] = Return (ls, gs)
     \<and> extend_field ''proxy-groups'' gs (ensure_list ''proxy-groups''
          (bind_new_list ''listeners'' ls
             (extend_field ''proxies'' gp (ensure_list ''proxies'' (base, h0))))) = (cfg, h')"
  using assms
  by (auto simp: process_data_def Let_def split: result.splits prod.splits)

lemma process_data_steps:
  assumes "generate_proxies 0 pl [] Map.empty = Return (gp, m)"
    and "generate_entries md m (sorted_mapping_keys md) [] [] = Return (ls, gs)"
  shows "process_data md pl base h0 =
     (Return (fst (extend_field ''proxy-groups'' gs (ensure_list ''proxy-groups''
          (bind_new_list ''listeners'' ls
             (extend_field ''proxies'' gp (ensure_list ''proxies'' (base, h0))))))),
      snd (extend_field ''proxy-groups'' gs (ensure_list ''proxy-groups''
          (bind_new_list ''listeners'' ls
             (extend_field ''proxies'' gp (ensure_list ''proxies'' (base, h0)))))))"
  using assms by (simp add: process_data_def Let_def)

lemma final_state:
  assumes wf: "wf_config h0 base"
    and fin: "extend_field ''proxy-groups'' gs (ensure_list ''proxy-groups''
          (bind_new_list ''listeners'' ls
             (extend_field ''proxies'' gp (ensure_list ''proxies'' (base, h0))))) = (cfg, h')"
  shows "field_items h' cfg ''listeners'' = ls"
    and "field_items h' cfg ''proxies'' =
           field_items h0 base ''proxies'' @ gp @ (if shares base ''proxies'' ''proxy-groups'' then gs else [])"
    and "field_items h' cfg ''proxy-groups'' =
           field_items h0 base ''proxy-groups'' @ (if shares base ''proxies'' ''proxy-groups'' then gp else []) @ gs"
    and "k \<noteq> ''proxies'' \<Longrightarrow> k \<noteq> ''proxy-groups'' \<Longrightarrow> k \<noteq> ''listeners'' \<Longrightarrow>
         map_of cfg k = map_of base k \<and>
         field_items h' cfg k = field_items h0 base k @ (if shares base ''proxies'' k then gp else [])
            @ (if shares base ''proxy-groups'' k then gs else [])"
    and "wf_config h' cfg"
proof -
  obtain c1 h1 where s1: "extend_field ''proxies'' gp (ensure_list ''proxies'' (base, h0)) = (c1, h1)"
    by (cases "extend_field ''proxies'' gp (ensure_list ''proxies'' (base, h0))")
  obtain c2 h2 where s2: "bind_new_list ''listeners'' ls (c1, h1) = (c2, h2)"
    by (cases "bind_new_list ''listeners'' ls (c1, h1)")
  from fin s1 s2 have s3: "extend_field ''proxy-groups'' gs (ensure_list ''proxy-groups'' (c2, h2)) = (cfg, h')"
    by simp
  have wf1: "wf_config h1 c1" using wf s1 by (rule append_wf)
  have wf2: "wf_config h2 c2" using wf1 s2 by (rule bind_wf)
  show "wf_config h' cfg" using wf2 s3 by (rule append_wf)
  have sh2: "shares c2 ''proxy-groups'' k' = (k' \<noteq> ''listeners'' \<and> shares base ''proxy-groups'' k')" for k'
  proof -
    have "shares c2 ''proxy-groups'' k' = (k' \<noteq> ''listeners'' \<and> shares c1 ''proxy-groups'' k')"
      by (simp add: bind_shares[OF wf1 s2])
    also have "shares c1 ''proxy-groups'' k' = shares base ''proxy-groups'' k'"
      by (simp add: append_shares[OF wf s1])
    finally show ?thesis .
  qed
  have i1: "field_items h1 c1 k' = field_items h0 base k' @ (if k' = ''proxies'' \<or> shares base ''proxies'' k' then gp else [])" for k'
    by (rule append_items[OF wf s1])
  have i2: "field_items h2 c2 k' = (if k' = ''listeners'' then ls else field_items h1 c1 k')" for k'
    by (rule bind_items[OF wf1 s2])
  have i3: "field_items h' cfg k' = field_items h2 c2 k' @ (if k' = ''proxy-groups'' \<or> shares c2 ''proxy-groups'' k' then gs else [])" for k'
    by (rule append_items[OF wf2 s3])
  show "field_items h' cfg ''listeners'' = ls"
    by (simp add: i3 i2 sh2)
  show "field_items h' cfg ''proxies'' =
           field_items h0 base ''proxies'' @ gp @ (if shares base ''proxies'' ''proxy-groups'' then gs else [])"
    by (simp add: i3 i2 i1 sh2 shares_sym[of base "''proxy-groups''"])
  show "field_items h' cfg ''proxy-groups'' =
           field_items h0 base ''proxy-groups'' @ (if shares base ''proxies'' ''proxy-groups'' then gp else []) @ gs"
    by (simp add: i3 i2 i1 sh2)
  show "map_of cfg k = map_of base k \<and>
         field_items h' cfg k = field_items h0 base k @ (if shares base ''proxies'' k then gp else [])
            @ (if shares base ''proxy-groups'' k then gs else [])"
    if "k \<noteq> ''proxies''" "k \<noteq> ''proxy-groups''" "k \<noteq> ''listeners''"
  proof
    have "map_of cfg k = map_of c2 k" using s3 that(2) by (rule append_map_of)
    also have "\<dots> = map_of c1 k" using s2 that(3) by (rule bind_map_of)
    also have "\<dots> = map_of base k" using s1 that(1) by (rule append_map_of)
    finally show "map_of cfg k = map_of base k" .
    show "field_items h' cfg k = field_items h0 base k @ (if shares base ''proxies'' k then gp else [])
            @ (if shares base ''proxy-groups'' k then gs else [])"
      using that by (simp add: i3 i2 i1 sh2)
  qed
qed

section \<open>The order of the mapping keys\<close>

lemma those_map:
  "those (map f xs) = (if \<forall>x \<in> set xs. f x \<noteq> None then Some (map (\<lambda>x. the (f x)) xs) else None)"
  by (induction xs) (auto split: option.splits)

lemma insort_key_decorated:
  "insort_key fst (f x, x) (map (\<lambda>k. (f k, k)) ys) = map (\<lambda>k. (f k, k)) (insort_key f x ys)"
  by (induction ys) auto

lemma sort_key_decorated:
  "sort_key fst (map (\<lambda>k. (f k, k)) xs) = map (\<lambda>k. (f k, k)) (sort_key f xs)"
  by (induction xs) (simp_all add: insort_key_decorated)

lemma zip_map_self: "zip (map f xs) xs = map (\<lambda>k. (f k, k)) xs"
  by (induction xs) auto

lemma decorate_sort_undecorate:
  "map snd (sort_key fst (zip (map f keys) keys)) = sort_key f keys"
proof -
  have "map snd (sort_key fst (zip (map f keys) keys)) = map snd (map (\<lambda>k. (f k, k)) (sort_key f keys))"
    by (simp only: zip_map_self sort_key_decorated)
  then show ?thesis by (simp add: o_def)
qed

lemma sorted_mapping_keys_int:
  assumes "\<forall>k \<in> fst ` set md. py_int k \<noteq> None"
  shows "sorted_mapping_keys md = sort_key (\<lambda>k. the (py_int k)) (map fst md)"
proof -
  have "those (map py_int (map fst md)) = Some (map (\<lambda>k. the (py_int k)) (map fst md))"
    using assms by (simp add: those_map)
  then show ?thesis
    unfolding sorted_mapping_keys_def Let_def
    by (simp only: option.case decorate_sort_undecorate)
qed

lemma sorted_mapping_keys_str:
  assumes "\<exists>k \<in> fst ` set md. py_int k = None"
  shows "sorted_mapping_keys md = sort (map fst md)"
proof -
  have "those (map py_int (map fst md)) = None"
    using assms by (auto simp: those_map)
  then show ?thesis
    by (simp add: sorted_mapping_keys_def)
qed

lemma set_sorted_mapping_keys: "set (sorted_mapping_keys md) = fst ` set md"
proof (cases "\<forall>k \<in> fst ` set md. py_int k \<noteq> None")
  case True
  then show ?thesis by (simp add: sorted_mapping_keys_int)
next
  case False
  then have "\<exists>k \<in> fst ` set md. py_int k = None" by simp
  then show ?thesis by (simp add: sorted_mapping_keys_str)
qed

lemma length_sorted_mapping_keys: "length (sorted_mapping_keys md) = length md"
proof (cases "\<forall>k \<in> fst ` set md. py_int k \<noteq> None")
  case True
  then show ?thesis by (simp add: sorted_mapping_keys_int)
next
  case False
  then have "\<exists>k \<in> fst ` set md. py_int k = None" by simp
  then show ?thesis by (simp add: sorted_mapping_keys_str)
qed

section \<open>One entry of the mapping table\<close>

lemma generate_group_resolved:
  assumes rem: "entry_get e ''socks_remote'' = Inr (PStr s)"
    and ne: "s \<noteq> []"
    and res: "s = a \<or> (s \<notin> ip ` set pl \<and> CHR '':'' \<in> set s \<and> fst (py_split1 CHR '':'' s) = a)"
    and j: "j < length pl" "ip (pl ! j) = a"
    and last: "\<forall>j'. j < j' \<and> j' < length pl \<longrightarrow> ip (pl ! j') \<noteq> a"
  shows "generate_group (spec_lookup 0 pl Map.empty) K e =
           Return (new_group (''socks_relay_'' @ K) (spec_proxy_name j))"
proof -
  let ?m = "spec_lookup 0 pl Map.empty"
  have ma: "?m a = Some (spec_proxy_name j)"
    using spec_lookup_last[OF j last, of 0 Map.empty] by simp
  have nn: "\<not> no_name (Some (spec_proxy_name j))"
    by (simp add: no_name_def spec_proxy_name_nonempty)
  have "resolve_target ?m (PStr s) = Inr (Some (spec_proxy_name j))"
  proof (cases "s = a")
    case True
    with ma nn show ?thesis by (simp add: resolve_target_def)
  next
    case False
    with res have r: "s \<notin> ip ` set pl" "CHR '':'' \<in> set s" "fst (py_split1 CHR '':'' s) = a"
      by auto
    from r(1) have "no_name (?m s)" by (simp add: no_name_spec_lookup)
    with r(2,3) ma show ?thesis
      by (cases "py_split1 CHR '':'' s") (simp add: resolve_target_def)
  qed
  with rem ne nn show ?thesis
    by (simp add: generate_group_def)
qed

lemma generate_entries_nth:
  assumes "generate_entries md m keys [] [] = Return (ls, gs)" and "K \<in> set keys"
  shows "\<exists>i < length keys. keys ! i = K \<and> length ls = length keys \<and> length gs = length keys
           \<and> generate_entry md m K = Return (ls ! i, gs ! i)"
proof -
  from generate_entries_Return[OF assms(1)] have
    len: "length ls = length keys" "length gs = length keys"
    and each: "\<forall>i < length keys. generate_entry md m (keys ! i) = Return (ls ! i, gs ! i)"
    by auto
  from assms(2) obtain i where "i < length keys" "keys ! i = K"
    by (auto simp: in_set_conv_nth)
  with len each show ?thesis by auto
qed

lemma generate_entry_parts:
  assumes "generate_entry md m K = Return (l, g)" and "map_of md K = Some e"
  shows "generate_listener K e = Return l" and "generate_group m K e = Return g"
  using assms by (auto simp: generate_entry_def split: result.splits)


lemma step1_lookup:
  assumes "generate_proxies 0 pl [] Map.empty = Return (gp, m)"
  shows "m = spec_lookup 0 pl Map.empty" and "gp = map (\<lambda>(i, r). spec_proxy i r) (enumerate 0 pl)"
proof -
  from assms have "\<forall>r \<in> set pl. py_int (port r) \<noteq> None"
    using generate_proxies_Return_iff[of 0 pl "[]" Map.empty] by auto
  with assms show "m = spec_lookup 0 pl Map.empty"
    and "gp = map (\<lambda>(i, r). spec_proxy i r) (enumerate 0 pl)"
    by (simp_all add: generate_proxies_all)
qed



lemma generate_listener_invalid:
  assumes "entry_get e ''socks_local'' = Inr v"
    and "\<not> truthy v \<or> (\<exists>s. v = PStr s \<and> CHR '':'' \<notin> set s)"
  shows "generate_listener K e = Abort (MappingFormatError K (LocalInvalid v))"
  using assms by (auto simp: generate_listener_def)

lemma generate_listener_string:
  assumes "entry_get e ''socks_local'' = Inr (PStr s)" and "CHR '':'' \<in> set s"
  shows "generate_listener K e =
     (case py_int (snd (py_split1 CHR '':'' s)) of
        None \<Rightarrow> Abort (MappingFormatError K (LocalPortInvalid (snd (py_split1 CHR '':'' s))))
      | Some n \<Rightarrow> Return (new_listener (''socks_'' @ K) n (''socks_relay_'' @ K)))"
proof -
  from assms(2) have "s \<noteq> []" by auto
  with assms show ?thesis
    by (cases "py_split1 CHR '':'' s") (simp add: generate_listener_def split: option.splits)
qed

lemma process_data_Abort:
  assumes "generate_proxies 0 pl [] Map.empty = Return (gp, m)"
    and "generate_entries md m (sorted_mapping_keys md) [] [] = Abort e"
  shows "fst (process_data md pl base h0) = Abort e"
  using assms by (simp add: process_data_def Let_def)

lemma process_data_entry_Abort:
  assumes step1: "generate_proxies 0 pl [] Map.empty = Return (gp, m)"
    and order: "sorted_mapping_keys md = pre @ K # post"
    and earlier: "\<forall>k \<in> set pre. \<exists>lg. generate_entry md m k = Return lg"
    and bad: "generate_entry md m K = Abort e"
  shows "fst (process_data md pl base h0) = Abort e"
proof -
  from generate_entries_Abort[OF earlier bad]
  have "generate_entries md m (sorted_mapping_keys md) [] [] = Abort e"
    by (simp add: order)
  with step1 show ?thesis by (rule process_data_Abort)
qed

lemma merged_entry:
  assumes wf: "wf_config h0 base"
    and run: "process_data md pl base h0 = (Return cfg, h')"
    and entry: "map_of md K = Some e"
  shows "\<exists>l g. generate_listener K e = Return l
            \<and> generate_group (spec_lookup 0 pl Map.empty) K e = Return g
            \<and> l \<in> set (field_items h' cfg ''listeners'')
            \<and> g \<in> set (field_items h' cfg ''proxy-groups'')"
proof -
  from process_data_Return[OF run] obtain gp m ls gs where
    gp: "generate_proxies 0 pl [] Map.empty = Return (gp, m)"
    and en: "generate_entries md m (sorted_mapping_keys md) [] [] = Return (ls, gs)"
    and fin: "extend_field ''proxy-groups'' gs (ensure_list ''proxy-groups''
          (bind_new_list ''listeners'' ls
             (extend_field ''proxies'' gp (ensure_list ''proxies'' (base, h0))))) = (cfg, h')"
    by blast
  from entry have "K \<in> set (sorted_mapping_keys md)"
    by (auto simp: set_sorted_mapping_keys dest!: map_of_SomeD intro: rev_image_eqI)
  from generate_entries_nth[OF en this] obtain i where
    i: "i < length (sorted_mapping_keys md)" "length ls = length (sorted_mapping_keys md)"
      "length gs = length (sorted_mapping_keys md)"
      "generate_entry md m K = Return (ls ! i, gs ! i)"
    by blast
  from generate_entry_parts[OF i(4) entry]
  have "generate_listener K e = Return (ls ! i)" "generate_group m K e = Return (gs ! i)" .
  moreover from i have "ls ! i \<in> set ls" "gs ! i \<in> set gs" by simp_all
  ultimately show ?thesis
    using step1_lookup(1)[OF gp] by (auto simp: final_state(1,3)[OF wf fin])
qed

section \<open>The same table in another order\<close>

lemma generate_listener_name:
  assumes "generate_listener K e = Return l"
  shows "\<exists>n. l = new_listener (''socks_'' @ K) n (''socks_relay_'' @ K)"
  using assms
  by (auto simp: generate_listener_def Let_def split: sum.splits if_splits bool.splits prod.splits option.splits)

lemma generate_group_name:
  assumes "generate_group m K e = Return g"
  shows "\<exists>t. g = new_group (''socks_relay_'' @ K) t"
  using assms
  by (auto simp: generate_group_def Let_def split: sum.splits if_splits)

lemma generate_entry_cong:
  "map_of md1 = map_of md2 \<Longrightarrow> generate_entry md1 m k = generate_entry md2 m k"
  by (simp add: generate_entry_def)

lemma generate_entries_cong:
  "map_of md1 = map_of md2 \<Longrightarrow>
   generate_entries md1 m keys ls gs = generate_entries md2 m keys ls gs"
  by (induction keys arbitrary: ls gs) (simp_all add: generate_entry_cong[of md1 md2] split: result.splits)

lemma process_data_cong:
  assumes "map_of md1 = map_of md2" and "sorted_mapping_keys md1 = sorted_mapping_keys md2"
  shows "process_data md1 pl base h0 = process_data md2 pl base h0"
  unfolding process_data_def assms(2) generate_entries_cong[OF assms(1)] by (rule refl)

lemma filter_eq_distinct:
  "distinct zs \<Longrightarrow> k \<in> set zs \<Longrightarrow> filter (\<lambda>x. x = k) zs = [k]"
  by (induction zs) (auto simp: filter_empty_conv)

lemma sort_key_perm_inj:
  assumes perm: "mset xs = mset ys" and d: "distinct xs" and inj: "inj_on f (set xs)"
  shows "sort_key f xs = sort_key f ys"
proof (rule properties_for_sort_key)
  show "mset (sort_key f ys) = mset xs" using perm by simp
  show "sorted (map f (sort_key f ys))" by simp
  fix k assume "k \<in> set (sort_key f ys)"
  then have ky: "k \<in> set ys" by simp
  from perm have sets: "set xs = set ys" by (rule mset_eq_setD)
  from perm d have dy: "distinct ys" by (metis mset_eq_imp_distinct_iff)
  have eq: "(f k = f x) = (x = k)" if "x \<in> set xs" for x
    using inj that ky sets by (auto dest: inj_onD)
  have "filter (\<lambda>x. f x = f k) (sort_key f ys) = filter (\<lambda>x. f x = f k) ys"
    by (rule sort_key_stable)
  then have "filter (\<lambda>x. f k = f x) (sort_key f ys) = filter (\<lambda>x. f k = f x) ys"
    by (simp add: eq_commute)
  also have "\<dots> = filter (\<lambda>x. x = k) ys"
    using eq sets by (intro filter_cong) auto
  also have "\<dots> = [k]" using dy ky by (rule filter_eq_distinct)
  also have "\<dots> = filter (\<lambda>x. x = k) xs"
    using d ky sets by (simp add: filter_eq_distinct)
  also have "\<dots> = filter (\<lambda>x. f k = f x) xs"
    using eq by (intro filter_cong) auto
  finally show "filter (\<lambda>x. f k = f x) (sort_key f ys) = filter (\<lambda>x. f k = f x) xs" .
qed

lemma sort_perm:
  fixes xs :: "'a::linorder list"
  assumes "mset xs = mset ys"
  shows "sort xs = sort ys"
  using assms by (intro properties_for_sort) simp_all

section \<open>Reading the result\<close>

lemma append_length:
  assumes "extend_field k xs (ensure_list k (c, h)) = (c', h')"
  shows "length h \<le> length h'"
  using assms
  by (cases "is_list_field c k") (auto simp: append_list append_fresh is_list_field_iff)

lemma bind_length:
  assumes "bind_new_list k xs (c, h) = (c', h')"
  shows "length h' = Suc (length h)"
  using assms by (auto simp: bind_new_list_def)

lemma process_data_entry_Raise:
  assumes step1: "generate_proxies 0 pl [] Map.empty = Return (gp, m)"
    and order: "sorted_mapping_keys md = pre @ K # post"
    and earlier: "\<forall>k \<in> set pre. \<exists>lg. generate_entry md m k = Return lg"
    and bad: "generate_entry md m K = Raise x"
  shows "fst (process_data md pl base h0) = Raise x"
proof -
  from generate_entries_Raise[OF earlier bad]
  have "generate_entries md m (sorted_mapping_keys md) [] [] = Raise x"
    by (simp add: order)
  with step1 show ?thesis by (simp add: process_data_def Let_def)
qed

section \<open>Claims\<close>

subsection \<open>C8: the proxy list parser\<close>

text \<open>
  Claim C8. For every content of the proxy file, given as its physical lines, the parser
  returns a list and no error. Blank lines and lines starting with \<open>#\<close> give neither a
  record nor a message; a line whose split on \<open>:\<close> has exactly four fields gives the
  record of these fields with its 1-based line number; every other line gives one logged
  message and no record. The records come in file order (their line numbers increase
  strictly), each record is the split of the line its number names, and a file with no
  valid line gives the empty list.
\<close>

theorem read_proxy_file_lines:
  "\<exists>proxies out.
     read_proxy_file (Lines ls) = (Inr proxies, out)
     \<and> proxies = map (\<lambda>(j, l). spec_record (j + 1) l) (filter (\<lambda>(j, l). spec_valid l) (enumerate 0 ls))
     \<and> out = map (\<lambda>(j, l). InvalidLine (j + 1) (py_strip l)) (filter (\<lambda>(j, l). spec_invalid l) (enumerate 0 ls))
     \<and> sorted_wrt (<) (map line_num proxies)
     \<and> (\<forall>p \<in> set proxies. 1 \<le> line_num p \<and> line_num p \<le> length ls
           \<and> spec_valid (ls ! (line_num p - 1))
           \<and> py_split CHR '':'' (py_strip (ls ! (line_num p - 1))) = [ip p, port p, user p, pass p])
     \<and> ((\<forall>l \<in> set ls. \<not> spec_valid l) \<longrightarrow> proxies = [])"
proof -
  let ?ps = "map (\<lambda>(j, l). spec_record (j + 1) l) (filter (\<lambda>(j, l). spec_valid l) (enumerate 0 ls))"
  have run: "read_proxy_file (Lines ls) =
      (Inr ?ps, map (\<lambda>(j, l). InvalidLine (j + 1) (py_strip l)) (filter (\<lambda>(j, l). spec_invalid l) (enumerate 0 ls)))"
    by (simp add: read_proxy_file_def read_lines_eq)
  have nums: "map line_num ?ps = map (\<lambda>(j, l). Suc j) (filter (\<lambda>(j, l). spec_valid l) (enumerate 0 ls))"
    by (simp add: spec_record_def case_prod_unfold)
  have ord: "sorted_wrt (<) (map line_num ?ps)"
    unfolding nums by (rule sorted_line_nums)
  have each: "1 \<le> line_num p \<and> line_num p \<le> length ls
           \<and> spec_valid (ls ! (line_num p - 1))
           \<and> py_split CHR '':'' (py_strip (ls ! (line_num p - 1))) = [ip p, port p, user p, pass p]"
    if "p \<in> set ?ps" for p
  proof -
    from that obtain j l where jl: "(j, l) \<in> set (enumerate 0 ls)" "spec_valid l" "p = spec_record (j + 1) l"
      by auto
    from jl(1) have j: "j < length ls" "ls ! j = l"
      by (auto simp: in_set_enumerate_eq)
    from jl(2) have len: "length (py_split CHR '':'' (py_strip l)) = 4"
      by (simp add: spec_valid_def spec_fields_def)
    then obtain a b c d where "py_split CHR '':'' (py_strip l) = [a, b, c, d]"
      by (auto simp: length_Suc_conv numeral_eq_Suc)
    with j jl(2,3) show ?thesis
      by (simp add: spec_record_def spec_fields_def)
  qed
  have none: "?ps = []" if "\<forall>l \<in> set ls. \<not> spec_valid l"
  proof -
    have "filter (\<lambda>(j, l). spec_valid l) (enumerate 0 ls) = []"
      using that by (auto simp: filter_empty_conv in_set_enumerate_eq)
    then show ?thesis by simp
  qed
  from run ord each none show ?thesis by blast
qed

theorem read_proxy_file_lines_witness:
  "\<exists>proxies out.
     read_proxy_file (Lines [''# upstream'', ''1.2.3.4:80:u:p'', '''', ''bad line'', '' 5.6.7.8:81:a:b '']) =
       (Inr proxies, out)
     \<and> proxies = [\<lparr>ip = ''1.2.3.4'', port = ''80'', user = ''u'', pass = ''p'', line_num = 2\<rparr>,
                  \<lparr>ip = ''5.6.7.8'', port = ''81'', user = ''a'', pass = ''b'', line_num = 5\<rparr>]
     \<and> out = [InvalidLine 4 ''bad line'']
     \<and> sorted_wrt (<) (map line_num proxies)"
proof -
  let ?ls = "[''# upstream'', ''1.2.3.4:80:u:p'', '''', ''bad line'', '' 5.6.7.8:81:a:b '']"
  have ps: "map (\<lambda>(j, l). spec_record (j + 1) l) (filter (\<lambda>(j, l). spec_valid l) (enumerate 0 ?ls)) =
      [\<lparr>ip = ''1.2.3.4'', port = ''80'', user = ''u'', pass = ''p'', line_num = 2\<rparr>,
       \<lparr>ip = ''5.6.7.8'', port = ''81'', user = ''a'', pass = ''b'', line_num = 5\<rparr>]"
    by code_simp
  have out: "map (\<lambda>(j, l). InvalidLine (j + 1) (py_strip l)) (filter (\<lambda>(j, l). spec_invalid l) (enumerate 0 ?ls)) =
      [InvalidLine 4 ''bad line'']"
    by code_simp
  from read_proxy_file_lines[of ?ls] show ?thesis
    unfolding ps out by blast
qed

subsection \<open>C1: step 1, the generated proxies\<close>



subsection \<open>C2: the last record with an IP wins\<close>

text \<open>
  Claim C2. Let step 1 succeed with the reverse lookup \<open>m\<close>, let an entry of key \<open>K\<close>
  have the non-empty string \<open>s\<close> as \<open>socks_remote\<close>, and let \<open>s\<close> resolve to the IP
  \<open>a\<close>: either \<open>s\<close> is \<open>a\<close>, or no record has the IP \<open>s\<close>, \<open>s\<close> contains a colon and
  \<open>a\<close> is its part before the first colon. If \<open>j\<close> is the index of the last record of
  the proxy list with IP \<open>a\<close>, then the relay group generated for the entry names the
  proxy generated from record \<open>j\<close> (\<open>socks_out_\<close> with \<open>j + 1\<close>), whatever earlier
  records have the same IP; and every successful merge of a table with this entry holds
  this relay group among its proxy groups and the proxy of record \<open>j\<close> among its proxies.
\<close>

theorem relay_group_last_write_wins:
  assumes step1: "generate_proxies 0 pl [] Map.empty = Return (gp, m)"
    and remote: "entry_get e ''socks_remote'' = Inr (PStr s)"
    and nonempty: "s \<noteq> []"
    and resolves: "s = a \<or> (s \<notin> ip ` set pl \<and> CHR '':'' \<in> set s \<and> fst (py_split1 CHR '':'' s) = a)"
    and j: "j < length pl" "ip (pl ! j) = a"
    and last: "\<forall>j'. j < j' \<and> j' < length pl \<longrightarrow> ip (pl ! j') \<noteq> a"
  shows "generate_group m K e =
           Return (PDict [(''name'', PStr (''socks_relay_'' @ K)),
                          (''type'', PStr ''relay''),
                          (''proxies'', PList [PStr ''Switch-Proxy'',
                                               PStr (''socks_out_'' @ format_02d (j + 1))])])
         \<and> (\<forall>md base h0 cfg h'.
               wf_config h0 base \<and> map_of md K = Some e
               \<and> process_data md pl base h0 = (Return cfg, h') \<longrightarrow>
               PDict [(''name'', PStr (''socks_relay_'' @ K)),
                      (''type'', PStr ''relay''),
                      (''proxies'', PList [PStr ''Switch-Proxy'',
                                           PStr (''socks_out_'' @ format_02d (j + 1))])]
                 \<in> set (field_items h' cfg ''proxy-groups'')
               \<and> spec_proxy j (pl ! j) \<in> set (field_items h' cfg ''proxies''))
         \<and> spec_proxy_name j = ''socks_out_'' @ format_02d (j + 1)"
proof -
  let ?g = "PDict [(''name'', PStr (''socks_relay_'' @ K)),
                   (''type'', PStr ''relay''),
                   (''proxies'', PList [PStr ''Switch-Proxy'',
                                        PStr (''socks_out_'' @ format_02d (j + 1))])]"
  from step1 have m: "m = spec_lookup 0 pl Map.empty"
    and gp: "gp = map (\<lambda>(i, r). spec_proxy i r) (enumerate 0 pl)"
    by (rule step1_lookup)+
  have grp: "generate_group m K e = Return ?g"
    using generate_group_resolved[OF remote nonempty resolves j last, of K]
    by (simp add: m new_group_def spec_proxy_name_def)
  have merged: "?g \<in> set (field_items h' cfg ''proxy-groups'')
      \<and> spec_proxy j (pl ! j) \<in> set (field_items h' cfg ''proxies'')"
    if a: "wf_config h0 base \<and> map_of md K = Some e
           \<and> process_data md pl base h0 = (Return cfg, h')"
    for md base h0 cfg h'
  proof -
    from a have wf: "wf_config h0 base" and entry: "map_of md K = Some e"
      and run: "process_data md pl base h0 = (Return cfg, h')"
      by simp_all
    from merged_entry[OF wf run entry] grp m
    have g: "?g \<in> set (field_items h' cfg ''proxy-groups'')" by auto
    from process_data_Return[OF run] step1 obtain ls gs where
      fin: "extend_field ''proxy-groups'' gs (ensure_list ''proxy-groups''
          (bind_new_list ''listeners'' ls
             (extend_field ''proxies'' gp (ensure_list ''proxies'' (base, h0))))) = (cfg, h')"
      by auto
    have "(j, pl ! j) \<in> set (enumerate 0 pl)"
      using j(1) by (simp add: in_set_enumerate_eq)
    then have "spec_proxy j (pl ! j) \<in> set gp"
      unfolding gp by force
    then have "spec_proxy j (pl ! j) \<in> set (field_items h' cfg ''proxies'')"
      by (simp add: final_state(2)[OF wf fin])
    with g show ?thesis by simp
  qed
  from grp merged show ?thesis
    by (simp add: spec_proxy_name_def)
qed

theorem relay_group_last_write_wins_witness:
  "generate_group
     (spec_lookup 0
        [\<lparr>ip = ''10.0.0.5'', port = ''1080'', user = ''alice'', pass = ''secret'', line_num = 1\<rparr>,
         \<lparr>ip = ''10.0.0.5'', port = ''1081'', user = ''bob'', pass = ''pw'', line_num = 2\<rparr>]
        Map.empty)
     ''1'' (PDict [(''socks_local'', PStr ''0.0.0.0:1081''), (''socks_remote'', PStr ''10.0.0.5:1080'')]) =
     Return (PDict [(''name'', PStr ''socks_relay_1''), (''type'', PStr ''relay''),
                    (''proxies'', PList [PStr ''Switch-Proxy'', PStr ''socks_out_02''])])
   \<and> (\<exists>cfg h'.
        process_data
          [(''1'', PDict [(''socks_local'', PStr ''0.0.0.0:1081''), (''socks_remote'', PStr ''10.0.0.5:1080'')])]
          [\<lparr>ip = ''10.0.0.5'', port = ''1080'', user = ''alice'', pass = ''secret'', line_num = 1\<rparr>,
           \<lparr>ip = ''10.0.0.5'', port = ''1081'', user = ''bob'', pass = ''pw'', line_num = 2\<rparr>]
          [] [] = (Return cfg, h')
        \<and> PDict [(''name'', PStr ''socks_relay_1''), (''type'', PStr ''relay''),
                 (''proxies'', PList [PStr ''Switch-Proxy'', PStr ''socks_out_02''])]
            \<in> set (field_items h' cfg ''proxy-groups''))"
proof -
  let ?e = "PDict [(''socks_local'', PStr ''0.0.0.0:1081''), (''socks_remote'', PStr ''10.0.0.5:1080'')]"
  let ?md = "[(''1'', ?e)]"
  let ?pl = "[\<lparr>ip = ''10.0.0.5'', port = ''1080'', user = ''alice'', pass = ''secret'', line_num = 1\<rparr>,
        \<lparr>ip = ''10.0.0.5'', port = ''1081'', user = ''bob'', pass = ''pw'', line_num = 2\<rparr>]"
  let ?m = "spec_lookup 0 ?pl Map.empty"
  have "case process_data ?md ?pl [] [] of (Return c, h) \<Rightarrow> True | _ \<Rightarrow> False"
    by code_simp
  then obtain cfg h' where run: "process_data ?md ?pl [] [] = (Return cfg, h')"
    by (auto split: prod.splits result.splits)
  have pa: "py_int ''1080'' = Some 1080" and pb: "py_int ''1081'' = Some 1081" by code_simp+
  have ok: "\<forall>r \<in> set ?pl. py_int (port r) \<noteq> None" by (simp add: pa pb)
  have step1: "generate_proxies 0 ?pl [] Map.empty =
      Return (map (\<lambda>(i, r). spec_proxy i r) (enumerate 0 ?pl), ?m)"
    using generate_proxies_all[OF ok, of 0 "[]" Map.empty] by simp
  have wf: "wf_config [] []" by (simp add: wf_config_def)
  have entry: "map_of ?md ''1'' = Some ?e" by simp
  have remote: "entry_get ?e ''socks_remote'' = Inr (PStr ''10.0.0.5:1080'')" by simp
  have nonempty: "''10.0.0.5:1080'' \<noteq> []" by simp
  have resolves: "''10.0.0.5:1080'' = ''10.0.0.5'' \<or>
      (''10.0.0.5:1080'' \<notin> ip ` set ?pl \<and> CHR '':'' \<in> set ''10.0.0.5:1080''
        \<and> fst (py_split1 CHR '':'' ''10.0.0.5:1080'') = ''10.0.0.5'')"
    by (simp add: py_split1_def)
  have j: "(1::nat) < length ?pl" "ip (?pl ! 1) = ''10.0.0.5''" by simp_all
  have last: "\<forall>j'. 1 < j' \<and> j' < length ?pl \<longrightarrow> ip (?pl ! j') \<noteq> ''10.0.0.5''" by simp
  have n: "format_02d (1 + 1) = ''02''" by code_simp
  note inst = relay_group_last_write_wins[OF step1 remote nonempty resolves j last, of "''1''"]
  from inst have first: "generate_group ?m ''1'' ?e =
     Return (PDict [(''name'', PStr ''socks_relay_1''), (''type'', PStr ''relay''),
                    (''proxies'', PList [PStr ''Switch-Proxy'', PStr ''socks_out_02''])])"
    using n by (simp del: spec_lookup.simps)
  from inst wf entry run have "PDict [(''name'', PStr ''socks_relay_1''), (''type'', PStr ''relay''),
                 (''proxies'', PList [PStr ''Switch-Proxy'', PStr ''socks_out_02''])]
            \<in> set (field_items h' cfg ''proxy-groups'')"
    using n by (elim conjE allE[of _ ?md] allE[of _ "[]"] allE[of _ cfg] allE[of _ h']) simp
  with first run show ?thesis by blast
qed

subsection \<open>C3: \<open>socks_remote\<close> and the relay group\<close>




subsection \<open>C5: \<open>socks_local\<close> and the listener\<close>

text \<open>
  Claim C5, as stated, speaks of every mapping entry. The code tests \<open>socks_local\<close>
  only for truth and for a colon and handles only \<open>ValueError\<close>, so an entry outside
  strings ends the call with an exception instead of the mapping error or a listener:
  for the number 1080 the test \<open>':' not in socks_local\<close> raises \<open>TypeError\<close> (line
  161), and for an entry that is a string and no object \<open>map_entry.get\<close> raises
  \<open>AttributeError\<close> (line 160).
\<close>

theorem socks_local_listener_counterexample:
  "fst (process_data
          [(''7'', PDict [(''socks_local'', PInt 1080), (''socks_remote'', PStr ''10.0.0.5'')])]
          [\<lparr>ip = ''10.0.0.5'', port = ''1080'', user = ''alice'', pass = ''secret'', line_num = 1\<rparr>]
          [] []) = Raise TypeError
   \<and> fst (process_data
          [(''7'', PStr ''127.0.0.1:1080'')]
          [\<lparr>ip = ''10.0.0.5'', port = ''1080'', user = ''alice'', pass = ''secret'', line_num = 1\<rparr>]
          [] []) = Raise AttributeError"
  by (intro conjI) code_simp+

text \<open>
  Claim C5, amended. Let step 1 succeed and let the merge reach the key \<open>K\<close> (every
  earlier key in the iteration order gives its listener and group). For an entry that is
  an object and whose \<open>socks_local\<close> is missing, falsy (null, false, 0, an empty
  string, list or object) or a string:
  \<^item> if it is missing, falsy or a string with no colon, the merge aborts with the
    mapping error for \<open>K\<close>;
  \<^item> if the part after the first colon does not parse as an integer, the merge aborts
    with the mapping error for \<open>K\<close> that names this part;
  \<^item> otherwise the listener \<open>socks_K\<close> of type \<open>mixed\<close>, with the parsed integer as
    port and \<open>socks_relay_K\<close> as proxy, is generated, and a merge that succeeds holds
    it among its listeners.
\<close>

theorem socks_local_listener:
  assumes wf: "wf_config h0 base"
    and step1: "generate_proxies 0 pl [] Map.empty = Return (gp, m)"
    and order: "sorted_mapping_keys md = pre @ K # post"
    and earlier: "\<forall>k \<in> set pre. \<exists>lg. generate_entry md m k = Return lg"
    and entry: "map_of md K = Some e"
    and local: "entry_get e ''socks_local'' = Inr v"
    and typed: "\<not> truthy v \<or> (\<exists>s. v = PStr s)"
  shows "((\<not> truthy v \<or> (\<exists>s. v = PStr s \<and> CHR '':'' \<notin> set s)) \<longrightarrow>
            fst (process_data md pl base h0) = Abort (MappingFormatError K (LocalInvalid v)))
       \<and> (\<forall>s. v = PStr s \<and> CHR '':'' \<in> set s \<longrightarrow>
            (case py_int (snd (py_split1 CHR '':'' s)) of
               None \<Rightarrow>
                 fst (process_data md pl base h0) =
                   Abort (MappingFormatError K (LocalPortInvalid (snd (py_split1 CHR '':'' s))))
             | Some n \<Rightarrow>
                 generate_listener K e =
                   Return (PDict [(''name'', PStr (''socks_'' @ K)),
                                  (''type'', PStr ''mixed''),
                                  (''port'', PInt n),
                                  (''proxy'', PStr (''socks_relay_'' @ K))])
                 \<and> (\<forall>cfg h'. process_data md pl base h0 = (Return cfg, h') \<longrightarrow>
                       PDict [(''name'', PStr (''socks_'' @ K)),
                              (''type'', PStr ''mixed''),
                              (''port'', PInt n),
                              (''proxy'', PStr (''socks_relay_'' @ K))]
                         \<in> set (field_items h' cfg ''listeners''))))"
proof (intro conjI allI impI)
  assume "\<not> truthy v \<or> (\<exists>s. v = PStr s \<and> CHR '':'' \<notin> set s)"
  with local have "generate_listener K e = Abort (MappingFormatError K (LocalInvalid v))"
    by (rule generate_listener_invalid)
  with entry have "generate_entry md m K = Abort (MappingFormatError K (LocalInvalid v))"
    by (simp add: generate_entry_def)
  with step1 order earlier
  show "fst (process_data md pl base h0) = Abort (MappingFormatError K (LocalInvalid v))"
    by (rule process_data_entry_Abort)
next
  fix s
  assume s: "v = PStr s \<and> CHR '':'' \<in> set s"
  let ?p = "snd (py_split1 CHR '':'' s)"
  from local s have loc: "entry_get e ''socks_local'' = Inr (PStr s)" and colon: "CHR '':'' \<in> set s"
    by simp_all
  note lis = generate_listener_string[OF loc colon, of K]
  show "case py_int ?p of
          None \<Rightarrow> fst (process_data md pl base h0) = Abort (MappingFormatError K (LocalPortInvalid ?p))
        | Some n \<Rightarrow>
            generate_listener K e =
              Return (PDict [(''name'', PStr (''socks_'' @ K)),
                             (''type'', PStr ''mixed''),
                             (''port'', PInt n),
                             (''proxy'', PStr (''socks_relay_'' @ K))])
            \<and> (\<forall>cfg h'. process_data md pl base h0 = (Return cfg, h') \<longrightarrow>
                  PDict [(''name'', PStr (''socks_'' @ K)),
                         (''type'', PStr ''mixed''),
                         (''port'', PInt n),
                         (''proxy'', PStr (''socks_relay_'' @ K))]
                    \<in> set (field_items h' cfg ''listeners''))"
  proof (cases "py_int ?p")
    case None
    with lis have "generate_listener K e = Abort (MappingFormatError K (LocalPortInvalid ?p))"
      by simp
    with entry have "generate_entry md m K = Abort (MappingFormatError K (LocalPortInvalid ?p))"
      by (simp add: generate_entry_def)
    with step1 order earlier
    have "fst (process_data md pl base h0) = Abort (MappingFormatError K (LocalPortInvalid ?p))"
      by (rule process_data_entry_Abort)
    with None show ?thesis by simp
  next
    case (Some n)
    with lis have l: "generate_listener K e = Return (new_listener (''socks_'' @ K) n (''socks_relay_'' @ K))"
      by simp
    have "new_listener (''socks_'' @ K) n (''socks_relay_'' @ K) \<in> set (field_items h' cfg ''listeners'')"
      if "process_data md pl base h0 = (Return cfg, h')" for cfg h'
      using merged_entry[OF wf that entry] l by auto
    with l Some show ?thesis
      by (simp add: new_listener_def)
  qed
qed

theorem socks_local_listener_witness:
  "fst (process_data
          [(''7'', PDict [(''socks_remote'', PStr ''10.0.0.5'')])]
          [\<lparr>ip = ''10.0.0.5'', port = ''1080'', user = ''alice'', pass = ''secret'', line_num = 1\<rparr>]
          [] []) = Abort (MappingFormatError ''7'' (LocalInvalid PNone))
   \<and> fst (process_data
          [(''7'', PDict [(''socks_local'', PStr ''127.0.0.1''), (''socks_remote'', PStr ''10.0.0.5'')])]
          [\<lparr>ip = ''10.0.0.5'', port = ''1080'', user = ''alice'', pass = ''secret'', line_num = 1\<rparr>]
          [] []) = Abort (MappingFormatError ''7'' (LocalInvalid (PStr ''127.0.0.1'')))
   \<and> fst (process_data
          [(''7'', PDict [(''socks_local'', PStr ''127.0.0.1:10x0''), (''socks_remote'', PStr ''10.0.0.5'')])]
          [\<lparr>ip = ''10.0.0.5'', port = ''1080'', user = ''alice'', pass = ''secret'', line_num = 1\<rparr>]
          [] []) = Abort (MappingFormatError ''7'' (LocalPortInvalid ''10x0''))
   \<and> generate_listener ''7''
         (PDict [(''socks_local'', PStr ''127.0.0.1:1081''), (''socks_remote'', PStr ''10.0.0.5'')]) =
       Return (PDict [(''name'', PStr ''socks_7''), (''type'', PStr ''mixed''),
                      (''port'', PInt 1081), (''proxy'', PStr ''socks_relay_7'')])"
proof -
  let ?pl = "[\<lparr>ip = ''10.0.0.5'', port = ''1080'', user = ''alice'', pass = ''secret'', line_num = 1\<rparr>]"
  let ?m = "spec_lookup 0 ?pl Map.empty"
  let ?e1 = "PDict [(''socks_remote'', PStr ''10.0.0.5'')]"
  let ?e2 = "PDict [(''socks_local'', PStr ''127.0.0.1''), (''socks_remote'', PStr ''10.0.0.5'')]"
  let ?e3 = "PDict [(''socks_local'', PStr ''127.0.0.1:10x0''), (''socks_remote'', PStr ''10.0.0.5'')]"
  let ?e4 = "PDict [(''socks_local'', PStr ''127.0.0.1:1081''), (''socks_remote'', PStr ''10.0.0.5'')]"
  have wf: "wf_config [] []" by (simp add: wf_config_def)
  have port: "py_int ''1080'' = Some 1080" by code_simp
  have p3: "py_int ''10x0'' = None" by code_simp
  have p4: "py_int ''1081'' = Some 1081" by code_simp
  have ok: "\<forall>r \<in> set ?pl. py_int (port r) \<noteq> None" by (simp add: port)
  have step1: "generate_proxies 0 ?pl [] Map.empty =
      Return (map (\<lambda>(i, r). spec_proxy i r) (enumerate 0 ?pl), ?m)"
    using generate_proxies_all[OF ok, of 0 "[]" Map.empty] by simp
  have order: "sorted_mapping_keys [(''7'', e)] = [] @ ''7'' # []" for e
    by (simp add: sorted_mapping_keys_def split: option.splits)
  have earlier: "\<forall>k \<in> set []. \<exists>lg. generate_entry md ?m k = Return lg" for md
    by simp
  have en: "map_of [(''7'', e)] ''7'' = Some e" for e :: pyval
    by simp
  have r1: "entry_get ?e1 ''socks_local'' = Inr PNone"
    and r2: "entry_get ?e2 ''socks_local'' = Inr (PStr ''127.0.0.1'')"
    and r3: "entry_get ?e3 ''socks_local'' = Inr (PStr ''127.0.0.1:10x0'')"
    and r4: "entry_get ?e4 ''socks_local'' = Inr (PStr ''127.0.0.1:1081'')"
    by simp_all
  have t1: "\<not> truthy PNone \<or> (\<exists>s. PNone = PStr s)"
    and t: "\<not> truthy (PStr x) \<or> (\<exists>s. PStr x = PStr s)" for x
    by simp_all
  have a: "fst (process_data [(''7'', ?e1)] ?pl [] []) = Abort (MappingFormatError ''7'' (LocalInvalid PNone))"
    using socks_local_listener[OF wf step1 order earlier en r1 t1] by simp
  have b: "fst (process_data [(''7'', ?e2)] ?pl [] []) =
      Abort (MappingFormatError ''7'' (LocalInvalid (PStr ''127.0.0.1'')))"
    using socks_local_listener[OF wf step1 order earlier en r2 t] by simp
  have c: "fst (process_data [(''7'', ?e3)] ?pl [] []) =
      Abort (MappingFormatError ''7'' (LocalPortInvalid ''10x0''))"
    using socks_local_listener[OF wf step1 order earlier en r3 t]
    by (simp add: py_split1_def p3)
  have d: "generate_listener ''7'' ?e4 =
       Return (PDict [(''name'', PStr ''socks_7''), (''type'', PStr ''mixed''),
                      (''port'', PInt 1081), (''proxy'', PStr ''socks_relay_7'')])"
    using socks_local_listener[OF wf step1 order earlier en r4 t]
    by (simp add: py_split1_def p4)
  from a b c d show ?thesis by simp
qed

subsection \<open>C4: the order of the mapping keys\<close>

text \<open>
  Claim C4, as stated, says that the order of the listeners and groups does not depend
  on the key order of the source JSON. That fails for two keys with the same integer
  value: \<open>sorted\<close> is stable, so \<open>"1"\<close> and \<open>"01"\<close> stay in source order. Here the same
  table in its two orders gives the listeners in two orders.
\<close>

theorem mapping_key_order_counterexample:
  "mset [(''1'', PDict [(''socks_local'', PStr ''0.0.0.0:1081''), (''socks_remote'', PStr ''10.0.0.5'')]),
         (''01'', PDict [(''socks_local'', PStr ''0.0.0.0:1082''), (''socks_remote'', PStr ''10.0.0.5'')])] =
   mset [(''01'', PDict [(''socks_local'', PStr ''0.0.0.0:1082''), (''socks_remote'', PStr ''10.0.0.5'')]),
         (''1'', PDict [(''socks_local'', PStr ''0.0.0.0:1081''), (''socks_remote'', PStr ''10.0.0.5'')])]
   \<and> process_data
        [(''1'', PDict [(''socks_local'', PStr ''0.0.0.0:1081''), (''socks_remote'', PStr ''10.0.0.5'')]),
         (''01'', PDict [(''socks_local'', PStr ''0.0.0.0:1082''), (''socks_remote'', PStr ''10.0.0.5'')])]
        [\<lparr>ip = ''10.0.0.5'', port = ''1080'', user = ''alice'', pass = ''secret'', line_num = 1\<rparr>]
        [] [] =
      (Return [(''proxies'', CList 0), (''listeners'', CList 1), (''proxy-groups'', CList 2)],
       [[new_proxy ''socks_out_01''
           \<lparr>ip = ''10.0.0.5'', port = ''1080'', user = ''alice'', pass = ''secret'', line_num = 1\<rparr> 1080],
        [new_listener ''socks_1'' 1081 ''socks_relay_1'', new_listener ''socks_01'' 1082 ''socks_relay_01''],
        [new_group ''socks_relay_1'' ''socks_out_01'', new_group ''socks_relay_01'' ''socks_out_01'']])
   \<and> process_data
        [(''01'', PDict [(''socks_local'', PStr ''0.0.0.0:1082''), (''socks_remote'', PStr ''10.0.0.5'')]),
         (''1'', PDict [(''socks_local'', PStr ''0.0.0.0:1081''), (''socks_remote'', PStr ''10.0.0.5'')])]
        [\<lparr>ip = ''10.0.0.5'', port = ''1080'', user = ''alice'', pass = ''secret'', line_num = 1\<rparr>]
        [] [] =
      (Return [(''proxies'', CList 0), (''listeners'', CList 1), (''proxy-groups'', CList 2)],
       [[new_proxy ''socks_out_01''
           \<lparr>ip = ''10.0.0.5'', port = ''1080'', user = ''alice'', pass = ''secret'', line_num = 1\<rparr> 1080],
        [new_listener ''socks_01'' 1082 ''socks_relay_01'', new_listener ''socks_1'' 1081 ''socks_relay_1''],
        [new_group ''socks_relay_01'' ''socks_out_01'', new_group ''socks_relay_1'' ''socks_out_01'']])
   \<and> [new_listener ''socks_1'' 1081 ''socks_relay_1'', new_listener ''socks_01'' 1082 ''socks_relay_01''] \<noteq>
      [new_listener ''socks_01'' 1082 ''socks_relay_01'', new_listener ''socks_1'' 1081 ''socks_relay_1'']"
proof (intro conjI)
  show "mset [(''1'', PDict [(''socks_local'', PStr ''0.0.0.0:1081''), (''socks_remote'', PStr ''10.0.0.5'')]),
         (''01'', PDict [(''socks_local'', PStr ''0.0.0.0:1082''), (''socks_remote'', PStr ''10.0.0.5'')])] =
   mset [(''01'', PDict [(''socks_local'', PStr ''0.0.0.0:1082''), (''socks_remote'', PStr ''10.0.0.5'')]),
         (''1'', PDict [(''socks_local'', PStr ''0.0.0.0:1081''), (''socks_remote'', PStr ''10.0.0.5'')])]"
    by (simp add: add.commute)
qed code_simp+

text \<open>
  Claim C4, amended. If every key parses as an integer, the iteration order is the list
  of keys sorted ascending by integer value, keys of the same value staying in source
  order; otherwise it is the list of keys in lexicographic string order (by code point).
  A successful merge holds its listeners in exactly this key order, and the generated
  relay groups, in this key order, at the end of its proxy groups. The order, and with it
  the whole result, does not depend on the key order of the source whenever some key does
  not parse or no two keys parse to the same integer.
\<close>

theorem mapping_key_order:
  "((\<forall>k \<in> fst ` set md. py_int k \<noteq> None) \<longrightarrow>
       mset (sorted_mapping_keys md) = mset (map fst md)
       \<and> sorted (map (\<lambda>k. the (py_int k)) (sorted_mapping_keys md))
       \<and> (\<forall>n. filter (\<lambda>k. the (py_int k) = n) (sorted_mapping_keys md) =
                filter (\<lambda>k. the (py_int k) = n) (map fst md)))
   \<and> ((\<exists>k \<in> fst ` set md. py_int k = None) \<longrightarrow>
       mset (sorted_mapping_keys md) = mset (map fst md) \<and> sorted (sorted_mapping_keys md))
   \<and> (\<forall>cfg h'. wf_config h0 base \<and> process_data md pl base h0 = (Return cfg, h') \<longrightarrow>
        (\<exists>front gs. field_items h' cfg ''proxy-groups'' = front @ gs
           \<and> map (\<lambda>l. entry_get l ''name'') (field_items h' cfg ''listeners'') =
               map (\<lambda>k. Inr (PStr (''socks_'' @ k))) (sorted_mapping_keys md)
           \<and> map (\<lambda>g. entry_get g ''name'') gs =
               map (\<lambda>k. Inr (PStr (''socks_relay_'' @ k))) (sorted_mapping_keys md)))
   \<and> (\<forall>md'. distinct (map fst md) \<and> mset md' = mset md
              \<and> ((\<exists>k \<in> fst ` set md. py_int k = None) \<or> inj_on py_int (fst ` set md)) \<longrightarrow>
        sorted_mapping_keys md' = sorted_mapping_keys md
        \<and> process_data md' pl base h0 = process_data md pl base h0)"
proof (intro conjI allI impI)
  assume all: "\<forall>k \<in> fst ` set md. py_int k \<noteq> None"
  then have eq: "sorted_mapping_keys md = sort_key (\<lambda>k. the (py_int k)) (map fst md)"
    by (rule sorted_mapping_keys_int)
  show "mset (sorted_mapping_keys md) = mset (map fst md)"
    unfolding eq by simp
  show "sorted (map (\<lambda>k. the (py_int k)) (sorted_mapping_keys md))"
    unfolding eq by simp
  show "filter (\<lambda>k. the (py_int k) = n) (sorted_mapping_keys md) =
        filter (\<lambda>k. the (py_int k) = n) (map fst md)" for n
    unfolding eq by (rule sort_key_stable)
next
  assume some: "\<exists>k \<in> fst ` set md. py_int k = None"
  then have eq: "sorted_mapping_keys md = sort (map fst md)"
    by (rule sorted_mapping_keys_str)
  show "mset (sorted_mapping_keys md) = mset (map fst md)"
    unfolding eq by simp
  show "sorted (sorted_mapping_keys md)"
    unfolding eq by simp
next
  fix cfg h'
  assume a: "wf_config h0 base \<and> process_data md pl base h0 = (Return cfg, h')"
  then have wf: "wf_config h0 base" and run: "process_data md pl base h0 = (Return cfg, h')"
    by simp_all
  let ?keys = "sorted_mapping_keys md"
  from process_data_Return[OF run] obtain gp m ls gs where
    en: "generate_entries md m ?keys [] [] = Return (ls, gs)"
    and fin: "extend_field ''proxy-groups'' gs (ensure_list ''proxy-groups''
          (bind_new_list ''listeners'' ls
             (extend_field ''proxies'' gp (ensure_list ''proxies'' (base, h0))))) = (cfg, h')"
    by blast
  from generate_entries_Return[OF en] have
    len: "length ls = length ?keys" "length gs = length ?keys"
    and each: "\<forall>i < length ?keys. generate_entry md m (?keys ! i) = Return (ls ! i, gs ! i)"
    by auto
  have names: "entry_get (ls ! i) ''name'' = Inr (PStr (''socks_'' @ ?keys ! i))
      \<and> entry_get (gs ! i) ''name'' = Inr (PStr (''socks_relay_'' @ ?keys ! i))"
    if i: "i < length ?keys" for i
  proof -
    from each i have ge: "generate_entry md m (?keys ! i) = Return (ls ! i, gs ! i)" by simp
    then obtain e where e: "map_of md (?keys ! i) = Some e"
      by (auto simp: generate_entry_def split: option.splits)
    from generate_entry_parts[OF ge e] generate_listener_name generate_group_name
    obtain n t where "ls ! i = new_listener (''socks_'' @ ?keys ! i) n (''socks_relay_'' @ ?keys ! i)"
      "gs ! i = new_group (''socks_relay_'' @ ?keys ! i) t"
      by blast
    then show ?thesis by (simp add: new_listener_def new_group_def)
  qed
  have l: "map (\<lambda>l. entry_get l ''name'') ls = map (\<lambda>k. Inr (PStr (''socks_'' @ k))) ?keys"
    using len names by (intro nth_equalityI) simp_all
  have g: "map (\<lambda>g. entry_get g ''name'') gs = map (\<lambda>k. Inr (PStr (''socks_relay_'' @ k))) ?keys"
    using len names by (intro nth_equalityI) simp_all
  show "\<exists>front gs. field_items h' cfg ''proxy-groups'' = front @ gs
           \<and> map (\<lambda>l. entry_get l ''name'') (field_items h' cfg ''listeners'') =
               map (\<lambda>k. Inr (PStr (''socks_'' @ k))) ?keys
           \<and> map (\<lambda>g. entry_get g ''name'') gs =
               map (\<lambda>k. Inr (PStr (''socks_relay_'' @ k))) ?keys"
    using l g final_state(1,3)[OF wf fin]
    by (intro exI[of _ "field_items h0 base ''proxy-groups'' @
          (if shares base ''proxies'' ''proxy-groups'' then gp else [])"] exI[of _ gs]) simp
next
  fix md'
  assume a: "distinct (map fst md) \<and> mset md' = mset md
      \<and> ((\<exists>k \<in> fst ` set md. py_int k = None) \<or> inj_on py_int (fst ` set md))"
  then have d: "distinct (map fst md)" and perm: "mset md' = mset md"
    and cond: "(\<exists>k \<in> fst ` set md. py_int k = None) \<or> inj_on py_int (fst ` set md)"
    by simp_all
  from perm have kperm: "mset (map fst md') = mset (map fst md)" by simp
  from perm have sets: "set md' = set md" by (rule mset_eq_setD)
  from kperm d have d': "distinct (map fst md')" by (metis mset_eq_imp_distinct_iff)
  from d d' sets have maps: "map_of md' = map_of md" by (simp add: map_of_inject_set)
  show keys: "sorted_mapping_keys md' = sorted_mapping_keys md"
  proof (cases "\<exists>k \<in> fst ` set md. py_int k = None")
    case True
    with sets have "\<exists>k \<in> fst ` set md'. py_int k = None" by simp
    with True kperm show ?thesis
      by (simp add: sorted_mapping_keys_str sort_perm)
  next
    case False
    then have all: "\<forall>k \<in> fst ` set md. py_int k \<noteq> None" by simp
    with sets have all': "\<forall>k \<in> fst ` set md'. py_int k \<noteq> None" by simp
    from False cond have inj: "inj_on py_int (fst ` set md)" by blast
    have "inj_on (\<lambda>k. the (py_int k)) (set (map fst md'))"
    proof (rule inj_onI)
      fix x y assume x: "x \<in> set (map fst md')" and y: "y \<in> set (map fst md')"
        and eq: "the (py_int x) = the (py_int y)"
      from x y sets have xs: "x \<in> fst ` set md" "y \<in> fst ` set md" by simp_all
      with all eq have "py_int x = py_int y" by (metis option.expand)
      with inj xs show "x = y" by (auto dest: inj_onD)
    qed
    from sort_key_perm_inj[OF kperm d' this] all all' show ?thesis
      by (simp add: sorted_mapping_keys_int)
  qed
  from maps keys show "process_data md' pl base h0 = process_data md pl base h0"
    by (rule process_data_cong)
qed

theorem mapping_key_order_witness:
  "process_data
     [(''9'', PDict [(''socks_local'', PStr ''0.0.0.0:1089''), (''socks_remote'', PStr ''10.0.0.5'')]),
      (''10'', PDict [(''socks_local'', PStr ''0.0.0.0:1090''), (''socks_remote'', PStr ''10.0.0.5'')])]
     [\<lparr>ip = ''10.0.0.5'', port = ''1080'', user = ''alice'', pass = ''secret'', line_num = 1\<rparr>]
     [] [] =
   process_data
     [(''10'', PDict [(''socks_local'', PStr ''0.0.0.0:1090''), (''socks_remote'', PStr ''10.0.0.5'')]),
      (''9'', PDict [(''socks_local'', PStr ''0.0.0.0:1089''), (''socks_remote'', PStr ''10.0.0.5'')])]
     [\<lparr>ip = ''10.0.0.5'', port = ''1080'', user = ''alice'', pass = ''secret'', line_num = 1\<rparr>]
     [] []
   \<and> sorted_mapping_keys
        [(''10'', PDict [(''socks_local'', PStr ''0.0.0.0:1090''), (''socks_remote'', PStr ''10.0.0.5'')]),
         (''9'', PDict [(''socks_local'', PStr ''0.0.0.0:1089''), (''socks_remote'', PStr ''10.0.0.5'')])] =
       [''9'', ''10'']
   \<and> sorted_mapping_keys [(''10'', PNone), (''9'', PNone), (''a'', PNone)] = [''10'', ''9'', ''a'']"
proof -
  let ?e9 = "PDict [(''socks_local'', PStr ''0.0.0.0:1089''), (''socks_remote'', PStr ''10.0.0.5'')]"
  let ?e10 = "PDict [(''socks_local'', PStr ''0.0.0.0:1090''), (''socks_remote'', PStr ''10.0.0.5'')]"
  let ?md = "[(''10'', ?e10), (''9'', ?e9)]"
  let ?md' = "[(''9'', ?e9), (''10'', ?e10)]"
  let ?pl = "[\<lparr>ip = ''10.0.0.5'', port = ''1080'', user = ''alice'', pass = ''secret'', line_num = 1\<rparr>]"
  have p9: "py_int ''9'' = Some 9" and p10: "py_int ''10'' = Some 10" by code_simp+
  have d: "distinct (map fst ?md)" by simp
  have perm: "mset ?md' = mset ?md" by (simp add: add.commute)
  have inj: "inj_on py_int (fst ` set ?md)" by (simp add: p9 p10)
  have k1: "sorted_mapping_keys ?md = [''9'', ''10'']" by code_simp
  have k2: "sorted_mapping_keys [(''10'', PNone), (''9'', PNone), (''a'', PNone)] = [''10'', ''9'', ''a'']"
    by code_simp
  from mapping_key_order[of ?md "[]" "[]" ?pl] d perm inj
  have "process_data ?md' ?pl [] [] = process_data ?md ?pl [] []"
    by blast
  with k1 k2 show ?thesis by simp
qed

subsection \<open>C6: the fields of the result\<close>

text \<open>
  Claim C6 says that the proxies of the result are the proxies of the base configuration
  followed by the generated proxies, and likewise for the proxy groups. The code appends
  with \<open>extend\<close> (lines 138 and 222) to the list objects the base configuration holds,
  the defect shown for claim C7 below. When two fields hold the same list object (a YAML
  alias: \<open>proxies: &x []\<close> and \<open>proxy-groups: *x\<close>) both calls append to that one
  list: here the base configuration has no proxies, the merge succeeds, and the proxies
  of the result are the generated proxy followed by the generated relay group, which is
  not the (empty) proxies of the base configuration followed by the generated proxy.
\<close>

theorem merged_fields_shared_list:
  "wf_config [[]] [(''proxies'', CList 0), (''proxy-groups'', CList 0)]
   \<and> field_items [[]] [(''proxies'', CList 0), (''proxy-groups'', CList 0)] ''proxies'' = []
   \<and> process_data
        [(''1'', PDict [(''socks_local'', PStr ''0.0.0.0:1081''), (''socks_remote'', PStr ''10.0.0.5'')])]
        [\<lparr>ip = ''10.0.0.5'', port = ''1080'', user = ''alice'', pass = ''secret'', line_num = 1\<rparr>]
        [(''proxies'', CList 0), (''proxy-groups'', CList 0)] [[]] =
      (Return [(''proxies'', CList 0), (''proxy-groups'', CList 0), (''listeners'', CList 1)],
       [[new_proxy ''socks_out_01''
           \<lparr>ip = ''10.0.0.5'', port = ''1080'', user = ''alice'', pass = ''secret'', line_num = 1\<rparr> 1080,
         new_group ''socks_relay_1'' ''socks_out_01''],
        [new_listener ''socks_1'' 1081 ''socks_relay_1'']])
   \<and> field_items
        [[new_proxy ''socks_out_01''
           \<lparr>ip = ''10.0.0.5'', port = ''1080'', user = ''alice'', pass = ''secret'', line_num = 1\<rparr> 1080,
          new_group ''socks_relay_1'' ''socks_out_01''],
         [new_listener ''socks_1'' 1081 ''socks_relay_1'']]
        [(''proxies'', CList 0), (''proxy-groups'', CList 0), (''listeners'', CList 1)] ''proxies'' =
      [new_proxy ''socks_out_01''
         \<lparr>ip = ''10.0.0.5'', port = ''1080'', user = ''alice'', pass = ''secret'', line_num = 1\<rparr> 1080,
       new_group ''socks_relay_1'' ''socks_out_01'']
   \<and> [new_proxy ''socks_out_01''
         \<lparr>ip = ''10.0.0.5'', port = ''1080'', user = ''alice'', pass = ''secret'', line_num = 1\<rparr> 1080,
       new_group ''socks_relay_1'' ''socks_out_01''] \<noteq>
      field_items [[]] [(''proxies'', CList 0), (''proxy-groups'', CList 0)] ''proxies'' @
      [new_proxy ''socks_out_01''
         \<lparr>ip = ''10.0.0.5'', port = ''1080'', user = ''alice'', pass = ''secret'', line_num = 1\<rparr> 1080]"
  by (intro conjI) code_simp+

subsection \<open>C10: a field of the base configuration that is no list\<close>

text \<open>
  Claim C10. Nothing in the merge fails because of the base configuration: whenever
  step 1 and the loop over the mapping keys succeed, the merge returns a configuration.
  If the \<open>proxies\<close> field of the base configuration is bound to something that is not
  a list, the result binds \<open>proxies\<close> to a list object that did not exist before the
  call and whose items are exactly the generated proxies; the same holds for
  \<open>proxy-groups\<close> and the generated relay groups.
\<close>

theorem non_list_field_replaced:
  assumes wf: "wf_config h0 base"
    and step1: "generate_proxies 0 pl [] Map.empty = Return (gp, m)"
    and loop: "generate_entries md m (sorted_mapping_keys md) [] [] = Return (ls, gs)"
  shows "\<exists>cfg h'.
     process_data md pl base h0 = (Return cfg, h')
     \<and> ((\<exists>v. map_of base ''proxies'' = Some (COther v)) \<longrightarrow>
           field_items h' cfg ''proxies'' = gp
           \<and> (\<exists>a. map_of cfg ''proxies'' = Some (CList a) \<and> length h0 \<le> a))
     \<and> ((\<exists>v. map_of base ''proxy-groups'' = Some (COther v)) \<longrightarrow>
           field_items h' cfg ''proxy-groups'' = gs
           \<and> (\<exists>a. map_of cfg ''proxy-groups'' = Some (CList a) \<and> length h0 \<le> a))"
proof -
  obtain c1 h1 where s1: "extend_field ''proxies'' gp (ensure_list ''proxies'' (base, h0)) = (c1, h1)"
    by (cases "extend_field ''proxies'' gp (ensure_list ''proxies'' (base, h0))")
  obtain c2 h2 where s2: "bind_new_list ''listeners'' ls (c1, h1) = (c2, h2)"
    by (cases "bind_new_list ''listeners'' ls (c1, h1)")
  obtain cfg h' where s3: "extend_field ''proxy-groups'' gs (ensure_list ''proxy-groups'' (c2, h2)) = (cfg, h')"
    by (cases "extend_field ''proxy-groups'' gs (ensure_list ''proxy-groups'' (c2, h2))")
  from s1 s2 s3 have fin: "extend_field ''proxy-groups'' gs (ensure_list ''proxy-groups''
          (bind_new_list ''listeners'' ls
             (extend_field ''proxies'' gp (ensure_list ''proxies'' (base, h0))))) = (cfg, h')"
    by simp
  have run: "process_data md pl base h0 = (Return cfg, h')"
    using process_data_steps[OF step1 loop, of base h0] fin by simp
  note fs = final_state[OF wf fin]
  have len: "length h0 \<le> length h1" "length h1 \<le> length h2"
    using append_length[OF s1] bind_length[OF s2] by simp_all
  have p: "field_items h' cfg ''proxies'' = gp
           \<and> (\<exists>a. map_of cfg ''proxies'' = Some (CList a) \<and> length h0 \<le> a)"
    if "\<exists>v. map_of base ''proxies'' = Some (COther v)"
  proof -
    from that obtain v where v: "map_of base ''proxies'' = Some (COther v)" by blast
    then have nl: "\<not> is_list_field base ''proxies''" by (simp add: is_list_field_def)
    then have ns: "\<not> shares base ''proxies'' ''proxy-groups''" by (auto dest: shares_list)
    from v have old: "field_items h0 base ''proxies'' = []" by (simp add: field_items_def)
    from s1 nl have "c1 = dict_set base ''proxies'' (CList (length h0))"
      by (simp add: append_fresh)
    then have "map_of c1 ''proxies'' = Some (CList (length h0))"
      by (simp add: map_of_dict_set)
    moreover have "map_of cfg ''proxies'' = map_of c2 ''proxies''"
      using s3 by (rule append_map_of) simp
    moreover have "map_of c2 ''proxies'' = map_of c1 ''proxies''"
      using s2 by (rule bind_map_of) simp
    ultimately have "map_of cfg ''proxies'' = Some (CList (length h0))" by simp
    with fs(2) ns old show ?thesis by simp
  qed
  have g: "field_items h' cfg ''proxy-groups'' = gs
           \<and> (\<exists>a. map_of cfg ''proxy-groups'' = Some (CList a) \<and> length h0 \<le> a)"
    if "\<exists>v. map_of base ''proxy-groups'' = Some (COther v)"
  proof -
    from that obtain v where v: "map_of base ''proxy-groups'' = Some (COther v)" by blast
    then have "\<not> is_list_field base ''proxy-groups''" by (simp add: is_list_field_def)
    then have ns: "\<not> shares base ''proxies'' ''proxy-groups''"
      by (auto dest: shares_list simp: shares_sym[of base "''proxies''"])
    from v have old: "field_items h0 base ''proxy-groups'' = []" by (simp add: field_items_def)
    have "map_of c2 ''proxy-groups'' = map_of c1 ''proxy-groups''"
      using s2 by (rule bind_map_of) simp
    moreover have "map_of c1 ''proxy-groups'' = map_of base ''proxy-groups''"
      using s1 by (rule append_map_of) simp
    ultimately have "\<not> is_list_field c2 ''proxy-groups''"
      using v by (simp add: is_list_field_def)
    with s3 have "cfg = dict_set c2 ''proxy-groups'' (CList (length h2))"
      by (simp add: append_fresh)
    then have "map_of cfg ''proxy-groups'' = Some (CList (length h2))"
      by (simp add: map_of_dict_set)
    with fs(3) ns old len show ?thesis by simp
  qed
  from run p g show ?thesis by blast
qed

theorem non_list_field_replaced_witness:
  "\<exists>cfg h'.
     process_data
       [(''1'', PDict [(''socks_local'', PStr ''0.0.0.0:1081''), (''socks_remote'', PStr ''10.0.0.5'')])]
       [\<lparr>ip = ''10.0.0.5'', port = ''1080'', user = ''alice'', pass = ''secret'', line_num = 1\<rparr>]
       [(''proxies'', COther PNone), (''proxy-groups'', COther (PStr ''none'')), (''listeners'', CList 0)]
       [[]] = (Return cfg, h')
     \<and> field_items h' cfg ''proxies'' =
         [new_proxy ''socks_out_01''
            \<lparr>ip = ''10.0.0.5'', port = ''1080'', user = ''alice'', pass = ''secret'', line_num = 1\<rparr> 1080]
     \<and> field_items h' cfg ''proxy-groups'' = [new_group ''socks_relay_1'' ''socks_out_01'']"
proof -
  let ?md = "[(''1'', PDict [(''socks_local'', PStr ''0.0.0.0:1081''), (''socks_remote'', PStr ''10.0.0.5'')])]"
  let ?r = "\<lparr>ip = ''10.0.0.5'', port = ''1080'', user = ''alice'', pass = ''secret'', line_num = 1\<rparr>"
  let ?base = "[(''proxies'', COther PNone), (''proxy-groups'', COther (PStr ''none'')), (''listeners'', CList 0)]"
  let ?m = "spec_lookup 0 [?r] Map.empty"
  have wf: "wf_config [[]] ?base" by (simp add: wf_config_def)
  have port: "py_int ''1080'' = Some 1080" by code_simp
  have n1: "format_02d (Suc 0) = ''01''" by code_simp
  have ok: "\<forall>r \<in> set [?r]. py_int (port r) \<noteq> None" by (simp add: port)
  have step1: "generate_proxies 0 [?r] [] Map.empty = Return ([new_proxy ''socks_out_01'' ?r 1080], ?m)"
    using generate_proxies_all[OF ok, of 0 "[]" Map.empty]
    by (simp add: spec_proxy_def spec_proxy_name_def new_proxy_def port n1)
  have keys: "sorted_mapping_keys ?md = [''1'']" by code_simp
  have p1081: "py_int ''1081'' = Some 1081" by code_simp
  have loop: "generate_entries ?md ?m (sorted_mapping_keys ?md) [] [] =
      Return ([new_listener ''socks_1'' 1081 ''socks_relay_1''], [new_group ''socks_relay_1'' ''socks_out_01''])"
    unfolding keys
    by (simp add: generate_entry_def generate_listener_def generate_group_def resolve_target_def
        no_name_def py_split1_def p1081 spec_proxy_name_def n1)
  from non_list_field_replaced[OF wf step1 loop] show ?thesis
    by auto
qed

subsection \<open>C9: the same call twice\<close>


subsection \<open>C7: the base configuration after the call\<close>

text \<open>
  Claim C7 says that the call leaves the base configuration as it was and that the
  result shares no mutable state with it. The code copies the dictionary (line 101) but
  not the lists it holds, and \<open>extend\<close> (lines 138 and 222) changes these lists in place.
  Here the base configuration is what \<open>read_clash_config\<close> returns for the YAML text
  \<open>mode: rule\<close>. After a successful merge its \<open>proxies\<close> and \<open>proxy-groups\<close> hold the
  generated entries, and the result is bound to the same two list objects; after a merge
  that aborts at step 5 its \<open>proxies\<close> hold the generated proxy all the same.
\<close>

theorem base_config_mutated:
  "config_view [[], [], []]
     [(''mode'', COther (PStr ''rule'')), (''proxies'', CList 0), (''proxy-groups'', CList 1),
      (''listeners'', CList 2)] =
     [(''mode'', PStr ''rule''), (''proxies'', PList []), (''proxy-groups'', PList []),
      (''listeners'', PList [])]
   \<and> process_data
        [(''1'', PDict [(''socks_local'', PStr ''0.0.0.0:1081''), (''socks_remote'', PStr ''10.0.0.5'')])]
        [\<lparr>ip = ''10.0.0.5'', port = ''1080'', user = ''alice'', pass = ''secret'', line_num = 1\<rparr>]
        [(''mode'', COther (PStr ''rule'')), (''proxies'', CList 0), (''proxy-groups'', CList 1),
         (''listeners'', CList 2)]
        [[], [], []] =
      (Return [(''mode'', COther (PStr ''rule'')), (''proxies'', CList 0), (''proxy-groups'', CList 1),
               (''listeners'', CList 3)],
       [[new_proxy ''socks_out_01''
           \<lparr>ip = ''10.0.0.5'', port = ''1080'', user = ''alice'', pass = ''secret'', line_num = 1\<rparr> 1080],
        [new_group ''socks_relay_1'' ''socks_out_01''],
        [],
        [new_listener ''socks_1'' 1081 ''socks_relay_1'']])
   \<and> config_view
        [[new_proxy ''socks_out_01''
           \<lparr>ip = ''10.0.0.5'', port = ''1080'', user = ''alice'', pass = ''secret'', line_num = 1\<rparr> 1080],
         [new_group ''socks_relay_1'' ''socks_out_01''],
         [],
         [new_listener ''socks_1'' 1081 ''socks_relay_1'']]
        [(''mode'', COther (PStr ''rule'')), (''proxies'', CList 0), (''proxy-groups'', CList 1),
         (''listeners'', CList 2)] =
      [(''mode'', PStr ''rule''),
       (''proxies'', PList [new_proxy ''socks_out_01''
           \<lparr>ip = ''10.0.0.5'', port = ''1080'', user = ''alice'', pass = ''secret'', line_num = 1\<rparr> 1080]),
       (''proxy-groups'', PList [new_group ''socks_relay_1'' ''socks_out_01'']),
       (''listeners'', PList [])]
   \<and> process_data
        [(''5'', PDict [(''socks_local'', PStr ''127.0.0.1:1080''), (''socks_remote'', PStr ''9.9.9.9'')])]
        [\<lparr>ip = ''10.0.0.5'', port = ''1080'', user = ''alice'', pass = ''secret'', line_num = 1\<rparr>]
        [(''mode'', COther (PStr ''rule'')), (''proxies'', CList 0), (''proxy-groups'', CList 1),
         (''listeners'', CList 2)]
        [[], [], []] =
      (Abort (UnresolvedRemoteError ''5'' (PStr ''9.9.9.9'')),
       [[new_proxy ''socks_out_01''
           \<lparr>ip = ''10.0.0.5'', port = ''1080'', user = ''alice'', pass = ''secret'', line_num = 1\<rparr> 1080],
        [], []])
   \<and> config_view
        [[new_proxy ''socks_out_01''
           \<lparr>ip = ''10.0.0.5'', port = ''1080'', user = ''alice'', pass = ''secret'', line_num = 1\<rparr> 1080],
         [], []]
        [(''mode'', COther (PStr ''rule'')), (''proxies'', CList 0), (''proxy-groups'', CList 1),
         (''listeners'', CList 2)] =
      [(''mode'', PStr ''rule''),
       (''proxies'', PList [new_proxy ''socks_out_01''
           \<lparr>ip = ''10.0.0.5'', port = ''1080'', user = ''alice'', pass = ''secret'', line_num = 1\<rparr> 1080]),
       (''proxy-groups'', PList []),
       (''listeners'', PList [])]"
  by (intro conjI) code_simp+

section \<open>Further properties: entries outside the data model\<close>

text \<open>
  Property X1. Let step 1 succeed and let the merge reach the key \<open>K\<close>. If the
  \<open>socks_local\<close> of its entry is \<open>true\<close> or a number other than zero, the test
  \<open>':' not in socks_local\<close> raises \<open>TypeError\<close>; no handler in \<open>process_data\<close>
  catches it, so the function returns neither a configuration nor one of its error
  messages.
\<close>

theorem number_as_socks_local_raises:
  assumes step1: "generate_proxies 0 pl [] Map.empty = Return (gp, m)"
    and order: "sorted_mapping_keys md = pre @ K # post"
    and earlier: "\<forall>k \<in> set pre. \<exists>lg. generate_entry md m k = Return lg"
    and entry: "map_of md K = Some e"
    and local: "entry_get e ''socks_local'' = Inr v"
    and number: "v = PBool True \<or> (\<exists>n. v = PInt n \<and> n \<noteq> 0)"
  shows "fst (process_data md pl base h0) = Raise TypeError"
proof -
  from local number have "generate_listener K e = Raise TypeError"
    by (auto simp: generate_listener_def)
  with entry have "generate_entry md m K = Raise TypeError"
    by (simp add: generate_entry_def)
  with step1 order earlier show ?thesis
    by (rule process_data_entry_Raise)
qed

theorem number_as_socks_local_raises_witness:
  "fst (process_data
          [(''1'', PDict [(''socks_local'', PInt 1080), (''socks_remote'', PStr ''10.0.0.5'')])]
          [\<lparr>ip = ''10.0.0.5'', port = ''1080'', user = ''alice'', pass = ''secret'', line_num = 1\<rparr>]
          [] []) = Raise TypeError"
proof -
  let ?e = "PDict [(''socks_local'', PInt 1080), (''socks_remote'', PStr ''10.0.0.5'')]"
  let ?pl = "[\<lparr>ip = ''10.0.0.5'', port = ''1080'', user = ''alice'', pass = ''secret'', line_num = 1\<rparr>]"
  let ?m = "spec_lookup 0 ?pl Map.empty"
  have port: "py_int ''1080'' = Some 1080" by code_simp
  have ok: "\<forall>r \<in> set ?pl. py_int (port r) \<noteq> None" by (simp add: port)
  have step1: "generate_proxies 0 ?pl [] Map.empty =
      Return (map (\<lambda>(i, r). spec_proxy i r) (enumerate 0 ?pl), ?m)"
    using generate_proxies_all[OF ok, of 0 "[]" Map.empty] by simp
  have order: "sorted_mapping_keys [(''1'', ?e)] = [] @ ''1'' # []"
    by (simp add: sorted_mapping_keys_def split: option.splits)
  have earlier: "\<forall>k \<in> set []. \<exists>lg. generate_entry [(''1'', ?e)] ?m k = Return lg"
    by simp
  have entry: "map_of [(''1'', ?e)] ''1'' = Some ?e" by simp
  have local: "entry_get ?e ''socks_local'' = Inr (PInt 1080)" by simp
  have number: "PInt 1080 = PBool True \<or> (\<exists>n. PInt 1080 = PInt n \<and> n \<noteq> 0)" by simp
  show ?thesis
    by (rule number_as_socks_local_raises[OF step1 order earlier entry local number])
qed

text \<open>
  Property X2. Let step 1 succeed and let the merge reach the key \<open>K\<close>. If the value of
  \<open>K\<close> in the mapping table is not an object (a string, a number, a list, \<open>null\<close>),
  \<open>map_entry.get\<close> raises \<open>AttributeError\<close>, which leaves \<open>process_data\<close> uncaught.
\<close>

theorem entry_not_an_object_raises:
  assumes step1: "generate_proxies 0 pl [] Map.empty = Return (gp, m)"
    and order: "sorted_mapping_keys md = pre @ K # post"
    and earlier: "\<forall>k \<in> set pre. \<exists>lg. generate_entry md m k = Return lg"
    and entry: "map_of md K = Some e"
    and no_object: "\<forall>d. e \<noteq> PDict d"
  shows "fst (process_data md pl base h0) = Raise AttributeError"
proof -
  from no_object have "entry_get e ''socks_local'' = Inl AttributeError"
    by (cases e) simp_all
  then have "generate_listener K e = Raise AttributeError"
    by (simp add: generate_listener_def)
  with entry have "generate_entry md m K = Raise AttributeError"
    by (simp add: generate_entry_def)
  with step1 order earlier show ?thesis
    by (rule process_data_entry_Raise)
qed

theorem entry_not_an_object_raises_witness:
  "fst (process_data
          [(''1'', PStr ''0.0.0.0:1081'')]
          [\<lparr>ip = ''10.0.0.5'', port = ''1080'', user = ''alice'', pass = ''secret'', line_num = 1\<rparr>]
          [] []) = Raise AttributeError"
proof -
  let ?e = "PStr ''0.0.0.0:1081''"
  let ?pl = "[\<lparr>ip = ''10.0.0.5'', port = ''1080'', user = ''alice'', pass = ''secret'', line_num = 1\<rparr>]"
  let ?m = "spec_lookup 0 ?pl Map.empty"
  have port: "py_int ''1080'' = Some 1080" by code_simp
  have ok: "\<forall>r \<in> set ?pl. py_int (port r) \<noteq> None" by (simp add: port)
  have step1: "generate_proxies 0 ?pl [] Map.empty =
      Return (map (\<lambda>(i, r). spec_proxy i r) (enumerate 0 ?pl), ?m)"
    using generate_proxies_all[OF ok, of 0 "[]" Map.empty] by simp
  have order: "sorted_mapping_keys [(''1'', ?e)] = [] @ ''1'' # []"
    by (simp add: sorted_mapping_keys_def split: option.splits)
  have earlier: "\<forall>k \<in> set []. \<exists>lg. generate_entry [(''1'', ?e)] ?m k = Return lg"
    by simp
  have entry: "map_of [(''1'', ?e)] ''1'' = Some ?e" by simp
  have no_object: "\<forall>d. ?e \<noteq> PDict d" by simp
  show ?thesis
    by (rule entry_not_an_object_raises[OF step1 order earlier entry no_object])
qed

end
